theory Spec2Isabelle
  imports Complex_Main "HOL-Library.Word"
begin

unbundle bit_operations_syntax

section \<open>CommandConverter: the symbolic command decoder\<close>

text \<open>
  \<^verbatim>\<open>enum class Commands { NOTHING, ACKNOWLEDGE, TARE, CALIBRATE, TIMED_MEASURE };\<close>
  (CommandConverter.h). The enumerators carry no initialiser, so their values are
  0, 1, 2, 3, 4 in declaration order.
\<close>

datatype Commands = NOTHING | ACKNOWLEDGE | TARE | CALIBRATE | TIMED_MEASURE

fun Commands_value :: "Commands \<Rightarrow> nat" where
  "Commands_value NOTHING = 0"
| "Commands_value ACKNOWLEDGE = 1"
| "Commands_value TARE = 2"
| "Commands_value CALIBRATE = 3"
| "Commands_value TIMED_MEASURE = 4"

text \<open>The exception \<^verbatim>\<open>std::invalid_argument\<close>, with its message.\<close>

datatype error = InvalidArgument string

definition stringToCommandMap :: "(string \<times> Commands) list" where
  "stringToCommandMap =
     [(''nothing'', NOTHING),
      (''acknowledge'', ACKNOWLEDGE),
      (''tare'', TARE),
      (''calibrate'', CALIBRATE),
      (''timed_measure'', TIMED_MEASURE)]"

text \<open>
  \<^verbatim>\<open>map.find(command)\<close> on a \<^verbatim>\<open>std::map\<close> with distinct keys is the lookup
  \<^const>\<open>map_of\<close>; a miss throws.
\<close>

definition stringToCommand :: "string \<Rightarrow> error + Commands" where
  "stringToCommand command =
     (case map_of stringToCommandMap command of
        Some c \<Rightarrow> Inr c
      | None \<Rightarrow> Inl (InvalidArgument (''Invalid command string: '' @ command)))"

section \<open>Single-precision floating point\<close>

text \<open>
  A C++ \<^verbatim>\<open>float\<close> on the target is an IEEE 754 binary32 value. It is modelled by its
  bit pattern: bit 31 is the sign, bits 30..23 the biased exponent, bits 22..0 the
  fraction. Arithmetic rounds to nearest, ties to even. Every operation below is
  computed on integers, so concrete results can be evaluated.
\<close>

type_synonym float = "32 word"

definition fsign :: "float \<Rightarrow> bool" where
  "fsign f = bit f 31"

definition fexp :: "float \<Rightarrow> int" where
  "fexp f = uint (drop_bit 23 f AND 0xFF)"

definition fman :: "float \<Rightarrow> int" where
  "fman f = uint (f AND 0x7FFFFF)"

definition is_nan :: "float \<Rightarrow> bool" where
  "is_nan f = (fexp f = 255 \<and> fman f \<noteq> 0)"

definition is_inf :: "float \<Rightarrow> bool" where
  "is_inf f = (fexp f = 255 \<and> fman f = 0)"

text \<open>
  A finite float has the magnitude \<open>significand * 2 ^ exponent\<close>; subnormals
  (biased exponent 0) have no hidden bit.
\<close>

definition significand :: "float \<Rightarrow> int" where
  "significand f = (if fexp f = 0 then fman f else 2 ^ 23 + fman f)"

definition exponent :: "float \<Rightarrow> int" where
  "exponent f = (if fexp f = 0 then - 149 else fexp f - 150)"

text \<open>
  The value of a float that is not a NaN, as a rational. The infinities are given the
  magnitude \<open>2 ^ 128\<close>, above every finite float, which is all that comparisons need.
\<close>

definition fmag :: "float \<Rightarrow> rat" where
  "fmag f =
     (if fexp f = 255 then 2 ^ 128
      else of_int (significand f) * 2 powi exponent f)"

definition valof :: "float \<Rightarrow> rat" where
  "valof f = (if fsign f then - fmag f else fmag f)"

definition mk_float :: "bool \<Rightarrow> int \<Rightarrow> int \<Rightarrow> float" where
  "mk_float s e m =
     (if s then 0x80000000 else 0) OR push_bit 23 (word_of_int e) OR word_of_int m"

definition fNaN :: float where
  "fNaN = 0x7FC00000"

definition fzero :: float where
  "fzero = 0"

text \<open>
  Rounding the positive rational \<open>p / q\<close>. \<open>find_exp\<close> searches the binary exponent
  upwards from the smallest normal one: called with \<open>q\<close> and \<open>p * 2 ^ 125\<close> it returns
  the \<open>e\<close> in \<open>-126 .. 128\<close> with \<open>2 ^ e \<le> p / q < 2 ^ (e + 1)\<close> (clamped at both
  ends).
\<close>

function find_exp :: "int \<Rightarrow> int \<Rightarrow> int \<Rightarrow> int" where
  "find_exp e q p = (if e < 128 \<and> q \<le> p then find_exp (e + 1) (2 * q) p else e)"
  by pat_completeness auto
termination
  by (relation "measure (\<lambda>(e, q, p). nat (128 - e))") auto

declare find_exp.simps [simp del]

text \<open>The integer nearest to \<open>n / d\<close>, a tie going to the even one.\<close>

definition round_even :: "int \<Rightarrow> int \<Rightarrow> int" where
  "round_even n d =
     (let k = n div d; r = n mod d
      in if 2 * r < d then k
         else if d < 2 * r then k + 1
         else if even k then k else k + 1)"

definition float_round :: "bool \<Rightarrow> int \<Rightarrow> int \<Rightarrow> float" where
  "float_round s p q =
     (if p = 0 then mk_float s 0 0
      else
        let e0 = find_exp (- 126) q (p * 2 ^ 125);
            m0 = round_even (p * 2 ^ nat (23 - e0)) (q * 2 ^ nat (e0 - 23));
            e = (if m0 = 2 ^ 24 then e0 + 1 else e0);
            m = (if m0 = 2 ^ 24 then 2 ^ 23 else m0)
        in if 127 < e then mk_float s 255 0
           else if m < 2 ^ 23 then mk_float s 0 m
           else mk_float s (e + 127) (m - 2 ^ 23))"

text \<open>Conversions from \<^verbatim>\<open>int32_t\<close> and \<^verbatim>\<open>uint32_t\<close>.\<close>

definition float_of_int32 :: "32 word \<Rightarrow> float" where
  "float_of_int32 w = float_round (sint w < 0) \<bar>sint w\<bar> 1"

definition float_of_uint32 :: "32 word \<Rightarrow> float" where
  "float_of_uint32 w = float_round False (uint w) 1"

text \<open>
  Division. A NaN result is represented by the quiet NaN \<open>fNaN\<close>; which NaN the
  hardware returns is not modelled, and no bit of such a result is used below.
\<close>

definition fdiv :: "float \<Rightarrow> float \<Rightarrow> float" where
  "fdiv a b =
     (let s = (fsign a \<noteq> fsign b) in
      if is_nan a \<or> is_nan b then fNaN
      else if is_inf a then (if is_inf b then fNaN else mk_float s 255 0)
      else if is_inf b then mk_float s 0 0
      else if significand b = 0 then (if significand a = 0 then fNaN else mk_float s 255 0)
      else float_round s
             (significand a * 2 ^ nat (exponent a - exponent b))
             (significand b * 2 ^ nat (exponent b - exponent a)))"

text \<open>
  Addition. The bytes of a sum are sent to the peer, so the NaN results are modelled too.
  IEEE 754 fixes that such a result is a quiet NaN and leaves its sign and payload to
  the processor: \<open>nan a b\<close> is the pattern the processor takes them from, for the
  operands \<open>a\<close> and \<open>b\<close>, and \<open>qnan\<close> makes a quiet NaN of it (exponent all ones,
  top fraction bit set, sign and the other fraction bits kept).
\<close>

definition qnan :: "float \<Rightarrow> float" where
  "qnan p = mk_float (fsign p) 255 (2 ^ 22 + fman p mod 2 ^ 22)"

definition fadd :: "(float \<Rightarrow> float \<Rightarrow> float) \<Rightarrow> float \<Rightarrow> float \<Rightarrow> float" where
  "fadd nan a b =
     (if is_nan a \<or> is_nan b then qnan (nan a b)
      else if is_inf a then (if is_inf b \<and> fsign a \<noteq> fsign b then qnan (nan a b) else a)
      else if is_inf b then b
      else
        let e = min (exponent a) (exponent b);
            x = (if fsign a then - significand a else significand a) * 2 ^ nat (exponent a - e);
            y = (if fsign b then - significand b else significand b) * 2 ^ nat (exponent b - e);
            r = x + y
        in if r = 0 then mk_float (fsign a \<and> fsign b) 0 0
           else float_round (r < 0) (\<bar>r\<bar> * 2 ^ nat e) (2 ^ nat (- e)))"

text \<open>
  One such choice, that of a processor which returns a NaN operand (the first one when
  both are) and the NaN \<open>0xFFC00000\<close> for \<open>inf + -inf\<close>.
\<close>

definition propagate_nan :: "float \<Rightarrow> float \<Rightarrow> float" where
  "propagate_nan a b = (if is_nan a then a else if is_nan b then b else 0xFFC00000)"

text \<open>The comparisons \<^verbatim>\<open><\<close>, \<^verbatim>\<open>>\<close>, \<^verbatim>\<open>>=\<close> and \<^verbatim>\<open>==\<close>: false as soon as an operand is a NaN.\<close>

definition flt :: "float \<Rightarrow> float \<Rightarrow> bool" where
  "flt a b = (\<not> is_nan a \<and> \<not> is_nan b \<and> valof a < valof b)"

definition fgt :: "float \<Rightarrow> float \<Rightarrow> bool" where
  "fgt a b = flt b a"

definition fge :: "float \<Rightarrow> float \<Rightarrow> bool" where
  "fge a b = (\<not> is_nan a \<and> \<not> is_nan b \<and> valof b \<le> valof a)"

definition feq :: "float \<Rightarrow> float \<Rightarrow> bool" where
  "feq a b = (\<not> is_nan a \<and> \<not> is_nan b \<and> valof a = valof b)"

text \<open>
  \<^verbatim>\<open>f < 0.1\<close> promotes the float (exactly) to \<^verbatim>\<open>double\<close> and compares it with the
  \<^verbatim>\<open>double\<close> nearest to one tenth, which is \<open>3602879701896397 / 2 ^ 55\<close>.
\<close>

definition double_0_1 :: rat where
  "double_0_1 = 3602879701896397 / 2 ^ 55"

definition flt_0_1 :: "float \<Rightarrow> bool" where
  "flt_0_1 f = (\<not> is_nan f \<and> valof f < double_0_1)"

section \<open>Non-volatile storage\<close>

text \<open>
  The EEPROM is a store of bytes by address. \<^verbatim>\<open>EEPROM.put(a, v)\<close> and
  \<^verbatim>\<open>EEPROM.get(a, v)\<close> copy the \<^verbatim>\<open>sizeof(v)\<close> bytes of \<open>v\<close>, least significant
  first; both a \<^verbatim>\<open>float\<close> and the 32-bit \<^verbatim>\<open>long\<close> of the target take four.
\<close>

type_synonym eeprom = "nat \<Rightarrow> 8 word"

definition bytes_of :: "32 word \<Rightarrow> 8 word list" where
  "bytes_of w = [ucast w, ucast (drop_bit 8 w), ucast (drop_bit 16 w), ucast (drop_bit 24 w)]"

definition word_of_bytes :: "8 word \<Rightarrow> 8 word \<Rightarrow> 8 word \<Rightarrow> 8 word \<Rightarrow> 32 word" where
  "word_of_bytes b0 b1 b2 b3 =
     ucast b0 OR push_bit 8 (ucast b1) OR push_bit 16 (ucast b2) OR push_bit 24 (ucast b3)"

definition EEPROM_put :: "nat \<Rightarrow> 32 word \<Rightarrow> eeprom \<Rightarrow> eeprom" where
  "EEPROM_put a w mem =
     mem(a := ucast w, a + 1 := ucast (drop_bit 8 w),
         a + 2 := ucast (drop_bit 16 w), a + 3 := ucast (drop_bit 24 w))"

definition EEPROM_get :: "nat \<Rightarrow> eeprom \<Rightarrow> 32 word" where
  "EEPROM_get a mem = word_of_bytes (mem a) (mem (a + 1)) (mem (a + 2)) (mem (a + 3))"

definition LOCATION_CALIBRATION_FACTOR :: nat where
  "LOCATION_CALIBRATION_FACTOR = 0"

definition LOCATION_ZERO_OFFSET :: nat where
  "LOCATION_ZERO_OFFSET = 10"

section \<open>The load-cell driver\<close>

text \<open>
  The sketch holds one instance \<^verbatim>\<open>myScale\<close> of the vendor class \<^verbatim>\<open>NAU7802\<close>, whose
  source is not part of the repository. Its state, as far as the sketch uses it, is the
  two calibration parameters.
\<close>

record NAU7802 =
  zeroOffset :: "32 word"
  calibrationFactor :: float

text \<open>
  Modelled from the spec: the driver's \<^verbatim>\<open>getZeroOffset\<close> ("get/set zero offset":
  in-memory access to the parameter).
\<close>

definition getZeroOffset :: "NAU7802 \<Rightarrow> 32 word" where
  "getZeroOffset sc = zeroOffset sc"

text \<open>
  Modelled from the spec: the driver's \<^verbatim>\<open>setZeroOffset\<close> ("setZeroOffset(v): in-memory
  mutation only").
\<close>

definition setZeroOffset :: "32 word \<Rightarrow> NAU7802 \<Rightarrow> NAU7802" where
  "setZeroOffset v sc = sc\<lparr>zeroOffset := v\<rparr>"

text \<open>
  Modelled from the spec: the driver's \<^verbatim>\<open>getCalibrationFactor\<close> ("get/set calibration
  factor": in-memory access to the parameter).
\<close>

definition getCalibrationFactor :: "NAU7802 \<Rightarrow> float" where
  "getCalibrationFactor sc = calibrationFactor sc"

text \<open>
  Modelled from the spec: the driver's \<^verbatim>\<open>setCalibrationFactor\<close> ("setScaleFactor(v):
  in-memory mutation only").
\<close>

definition setCalibrationFactor :: "float \<Rightarrow> NAU7802 \<Rightarrow> NAU7802" where
  "setCalibrationFactor v sc = sc\<lparr>calibrationFactor := v\<rparr>"

text \<open>
  Modelled from the spec: the driver's \<^verbatim>\<open>calculateZeroOffset\<close> ("acquires
  averagingCount raw samples from the amplifier driver, averages them, sets zeroOffset
  to the average"). The average of the acquired samples is an input, \<open>average\<close>.
\<close>

definition calculateZeroOffset :: "32 word \<Rightarrow> NAU7802 \<Rightarrow> NAU7802" where
  "calculateZeroOffset average sc = setZeroOffset average sc"

text \<open>
  Modelled from the spec: the driver's \<^verbatim>\<open>calculateCalibrationFactor\<close> ("computes
  scaleFactor = (averageRawSample - zeroOffset) / knownWeight"; the spec records that
  the source validates nothing here). The difference is taken on 32-bit integers and
  converted to \<^verbatim>\<open>float\<close>, as the sketch itself does when it computes a weight.
\<close>

definition calculateCalibrationFactor :: "float \<Rightarrow> 32 word \<Rightarrow> NAU7802 \<Rightarrow> NAU7802" where
  "calculateCalibrationFactor knownWeight average sc =
     setCalibrationFactor (fdiv (float_of_int32 (average - zeroOffset sc)) knownWeight) sc"

section \<open>The sketch\<close>

text \<open>
  The global variables of \<^verbatim>\<open>byteboard_hardware.ino\<close> that the modelled functions read
  or write, with the EEPROM. \<open>advertisingStarts\<close> counts the calls of
  \<^verbatim>\<open>startAdvertising\<close> made by \<^verbatim>\<open>loop\<close>. Serial output is not part of the state.
\<close>

record sketch =
  myScale :: NAU7802
  EEPROM :: eeprom
  settingsDetected :: bool
  deviceConnected :: bool
  oldDeviceConnected :: bool
  command :: "8 word"
  advertisingStarts :: nat

text \<open>
  What the outside world supplies during one call of \<^verbatim>\<open>loop\<close>:
  \<^item> \<open>readings\<close>: the value of the \<open>k\<close>-th call of \<^verbatim>\<open>myScale.getReading()\<close>;
  \<^item> \<open>tareAverage\<close>, \<open>calAverage\<close>: the averages the driver acquires in
    \<^verbatim>\<open>calculateZeroOffset\<close> and in \<^verbatim>\<open>calculateCalibrationFactor\<close>;
  \<^item> \<open>parsedWeight\<close>: the result of \<^verbatim>\<open>Serial.parseFloat()\<close>;
  \<^item> \<open>keyPresses\<close>: how many of the waits
    \<^verbatim>\<open>while (Serial.available() == 0) delay(10);\<close> the operator answers. A wait that is
    not answered never ends; the function then has no result (\<open>None\<close>).
  The connection callbacks and the control characteristic's \<^verbatim>\<open>onWrite\<close> run between
  two calls of \<^verbatim>\<open>loop\<close>.
\<close>

record env =
  readings :: "nat \<Rightarrow> 32 word"
  tareAverage :: "32 word"
  calAverage :: "32 word"
  parsedWeight :: float
  keyPresses :: nat

text \<open>
  \<^verbatim>\<open>enum Commands : uint8_t { NOTHING = 0, TARE = 1, CALIBRATE = 2, TIMED_MEASURE = 3 };\<close>
  the sketch's own enumeration, compared with the raw byte \<^verbatim>\<open>command\<close>. The names carry
  the prefix \<open>ino\<close> to keep them apart from the decoder's \<^verbatim>\<open>enum class\<close>.
\<close>

definition ino_NOTHING :: "8 word" where
  "ino_NOTHING = 0"

definition ino_TARE :: "8 word" where
  "ino_TARE = 1"

definition ino_CALIBRATE :: "8 word" where
  "ino_CALIBRATE = 2"

definition ino_TIMED_MEASURE :: "8 word" where
  "ino_TIMED_MEASURE = 3"

subsection \<open>setFloatArrayValue\<close>

text \<open>
  \<^verbatim>\<open>std::memcpy(temp + off, &w, sizeof(float))\<close>: four bytes written into the buffer.
\<close>

definition memcpy4 :: "8 word list \<Rightarrow> nat \<Rightarrow> 32 word \<Rightarrow> 8 word list" where
  "memcpy4 temp off w =
     temp[off := ucast w, off + 1 := ucast (drop_bit 8 w),
          off + 2 := ucast (drop_bit 16 w), off + 3 := ucast (drop_bit 24 w)]"

text \<open>
  The \<^verbatim>\<open>for\<close> loop, from index \<open>i\<close> on: the running sum (\<open>sum32\<close>) and the buffer.
  \<open>nan\<close> is the processor's choice of NaN results in \<^verbatim>\<open>sum += data32[i]\<close>.
\<close>

fun copyFloats ::
  "(float \<Rightarrow> float \<Rightarrow> float) \<Rightarrow> float list \<Rightarrow> nat \<Rightarrow> float \<Rightarrow> 8 word list
     \<Rightarrow> float \<times> 8 word list" where
  "copyFloats nan [] i sum32 temp = (sum32, temp)"
| "copyFloats nan (x # xs) i sum32 temp =
     copyFloats nan xs (i + 1) (fadd nan sum32 x) (memcpy4 temp (i * 4 mod 2 ^ 32) x)"

text \<open>
  The result is the value handed to \<^verbatim>\<open>p->setValue(temp, totalLength)\<close>. \<^verbatim>\<open>size_t\<close> has
  32 bits on the target, so the lengths wrap at \<open>2 ^ 32\<close>. \<^verbatim>\<open>new uint8_t[n]\<close> does not
  initialise the buffer: \<open>heap\<close> gives its initial content.
\<close>

definition setFloatArrayValue ::
  "(float \<Rightarrow> float \<Rightarrow> float) \<Rightarrow> (nat \<Rightarrow> 8 word) \<Rightarrow> float list \<Rightarrow> 8 word list" where
  "setFloatArrayValue nan heap data32 =
     (let len = length data32;
          byteLength = 4 * len mod 2 ^ 32;
          totalLength = (byteLength + 4) mod 2 ^ 32;
          temp = map heap [0..<(byteLength + 4) mod 2 ^ 32];
          (sum32, temp1) = copyFloats nan data32 0 fzero temp;
          temp2 = memcpy4 temp1 (len * 4 mod 2 ^ 32) sum32
      in take totalLength temp2)"

subsection \<open>timedMeasure\<close>

definition numMeasurements :: nat where
  "numMeasurements = 1000"

text \<open>
  \<^verbatim>\<open>float trueWeight = (measurements[j] - zeroOffset) / calibrationFactor;\<close>
  The subtraction is on \<^verbatim>\<open>int\<close> (32 bits, two's complement), its result is converted
  to \<^verbatim>\<open>float\<close> and divided.
\<close>

definition trueWeight :: "32 word \<Rightarrow> float \<Rightarrow> 32 word \<Rightarrow> float" where
  "trueWeight zo cf m = fdiv (float_of_int32 (m - zo)) cf"

text \<open>The second \<^verbatim>\<open>for\<close> loop, over the measurements still to visit.\<close>

fun maxWeightLoop :: "32 word \<Rightarrow> float \<Rightarrow> 32 word list \<Rightarrow> float \<Rightarrow> float" where
  "maxWeightLoop zo cf [] maxWeight = maxWeight"
| "maxWeightLoop zo cf (m # ms) maxWeight =
     maxWeightLoop zo cf ms
       (if fgt (trueWeight zo cf m) maxWeight then trueWeight zo cf m else maxWeight)"

text \<open>
  The value that \<^verbatim>\<open>timedMeasure\<close> prints after "Maximum weight recorded: ": the
  acquisition loop stores \<open>numMeasurements\<close> successive readings, and the maximum
  starts at \<^verbatim>\<open>0.0\<close>.
\<close>

definition timedMeasure_maxWeight :: "env \<Rightarrow> sketch \<Rightarrow> float" where
  "timedMeasure_maxWeight ev s =
     maxWeightLoop (getZeroOffset (myScale s)) (getCalibrationFactor (myScale s))
       (map (readings ev) [0..<numMeasurements]) fzero"

text \<open>
  \<^verbatim>\<open>timedMeasure\<close> changes no global variable; it returns once the operator has pressed
  a key.
\<close>

definition timedMeasure :: "env \<Rightarrow> sketch \<Rightarrow> sketch option" where
  "timedMeasure ev s = (if keyPresses ev < 1 then None else Some s)"

subsection \<open>Persisting and loading the settings\<close>

definition recordSystemSettings :: "sketch \<Rightarrow> sketch" where
  "recordSystemSettings s =
     (let e1 = EEPROM_put LOCATION_CALIBRATION_FACTOR (getCalibrationFactor (myScale s)) (EEPROM s);
          e2 = EEPROM_put LOCATION_ZERO_OFFSET (getZeroOffset (myScale s)) e1
      in s\<lparr>EEPROM := e2\<rparr>)"

text \<open>
  In \<^verbatim>\<open>settingCalibrationFactor == 0xFFFFFFFF\<close> the constant is an \<^verbatim>\<open>unsigned int\<close>
  and is converted to \<^verbatim>\<open>float\<close> for the comparison. In
  \<^verbatim>\<open>settingZeroOffset == 0xFFFFFFFF\<close> the 32-bit \<^verbatim>\<open>long\<close> is converted to unsigned, so
  the comparison is one of bit patterns.
\<close>

definition readSystemSettings :: "sketch \<Rightarrow> sketch" where
  "readSystemSettings s =
     (let e0 = EEPROM s;
          cf0 = EEPROM_get LOCATION_CALIBRATION_FACTOR e0;
          reset_cf = feq cf0 (float_of_uint32 0xFFFFFFFF);
          settingCalibrationFactor = (if reset_cf then fzero else cf0);
          e1 = (if reset_cf then EEPROM_put LOCATION_CALIBRATION_FACTOR fzero e0 else e0);
          zo0 = EEPROM_get LOCATION_ZERO_OFFSET e1;
          reset_zo = (zo0 = 0xFFFFFFFF);
          settingZeroOffset = (if reset_zo then 1000 else zo0);
          e2 = (if reset_zo then EEPROM_put LOCATION_ZERO_OFFSET 1000 e1 else e1);
          sc = setZeroOffset settingZeroOffset
                 (setCalibrationFactor settingCalibrationFactor (myScale s))
      in s\<lparr>myScale := sc, EEPROM := e2,
           settingsDetected :=
             \<not> (flt_0_1 settingCalibrationFactor \<or> settingZeroOffset = 1000)\<rparr>)"

subsection \<open>calibrateScale\<close>

text \<open>
  The three waits for a key come first in the model; between them the function tares
  (64 samples), reads the known weight, computes the factor (64 samples) and persists.
  The weight read from the console goes to the driver as it is.
\<close>

definition calibrateScale :: "env \<Rightarrow> sketch \<Rightarrow> sketch option" where
  "calibrateScale ev s =
     (if keyPresses ev < 3 then None
      else
        let sc1 = calculateZeroOffset (tareAverage ev) (myScale s);
            weightOnScale = parsedWeight ev;
            sc2 = calculateCalibrationFactor weightOnScale (calAverage ev) sc1
        in Some (recordSystemSettings (s\<lparr>myScale := sc2\<rparr>)))"

subsection \<open>loop\<close>

text \<open>The \<^verbatim>\<open>switch (command)\<close> of \<^verbatim>\<open>loop\<close>, as a function of the command byte.\<close>

definition dispatch :: "8 word \<Rightarrow> env \<Rightarrow> sketch \<Rightarrow> sketch option" where
  "dispatch c ev s =
     (if c = ino_NOTHING then Some s
      else if c = ino_TARE then
        Some (s\<lparr>myScale := calculateZeroOffset (tareAverage ev) (myScale s)\<rparr>)
      else if c = ino_CALIBRATE then calibrateScale ev s
      else if c = ino_TIMED_MEASURE then timedMeasure ev s
      else Some s)"

definition loop :: "env \<Rightarrow> sketch \<Rightarrow> sketch option" where
  "loop ev s =
     (case (if deviceConnected s then dispatch (command s) ev s else Some s) of
        None \<Rightarrow> None
      | Some s1 \<Rightarrow>
          let s2 = (if \<not> deviceConnected s1 \<and> oldDeviceConnected s1
                    then s1\<lparr>advertisingStarts := advertisingStarts s1 + 1,
                            oldDeviceConnected := deviceConnected s1\<rparr>
                    else s1);
              s3 = (if deviceConnected s2 \<and> \<not> oldDeviceConnected s2
                    then s2\<lparr>oldDeviceConnected := deviceConnected s2\<rparr>
                    else s2)
          in Some s3)"

subsection \<open>The state at power-on\<close>

text \<open>
  The initial values of the globals (\<^verbatim>\<open>settingsDetected = false\<close>,
  \<^verbatim>\<open>deviceConnected = false\<close>, \<^verbatim>\<open>oldDeviceConnected = false\<close>,
  \<^verbatim>\<open>command = NOTHING\<close>), for a given driver state and EEPROM content.
\<close>

definition power_on :: "NAU7802 \<Rightarrow> eeprom \<Rightarrow> sketch" where
  "power_on sc mem =
     \<lparr>myScale = sc, EEPROM = mem, settingsDetected = False, deviceConnected = False,
      oldDeviceConnected = False, command = ino_NOTHING, advertisingStarts = 0\<rparr>"

text \<open>The erased EEPROM: every byte reads \<open>0xFF\<close>.\<close>

definition erased :: eeprom where
  "erased = (\<lambda>a. 0xFF)"

section \<open>Evaluation rules\<close>

lemmas float_eval =
  fsign_def fexp_def fman_def is_nan_def is_inf_def significand_def exponent_def fmag_def
  valof_def mk_float_def find_exp.simps round_even_def float_round_def float_of_int32_def
  float_of_uint32_def fNaN_def fzero_def fdiv_def qnan_def fadd_def propagate_nan_def flt_def fgt_def fge_def feq_def
  double_0_1_def flt_0_1_def Let_def

lemmas eeprom_eval =
  EEPROM_put_def EEPROM_get_def word_of_bytes_def LOCATION_CALIBRATION_FACTOR_def
  LOCATION_ZERO_OFFSET_def erased_def

lemmas driver_eval =
  getZeroOffset_def setZeroOffset_def getCalibrationFactor_def setCalibrationFactor_def
  calculateZeroOffset_def calculateCalibrationFactor_def

section \<open>The symbolic decoder\<close>

lemma stringToCommandMap_keys:
  "map fst stringToCommandMap =
     [''nothing'', ''acknowledge'', ''tare'', ''calibrate'', ''timed_measure'']"
  by (simp add: stringToCommandMap_def)

lemma stringToCommand_miss:
  assumes "token \<notin> set (map fst stringToCommandMap)"
  shows "stringToCommand token =
           Inl (InvalidArgument (''Invalid command string: '' @ token))"
proof -
  from assms have "map_of stringToCommandMap token = None"
    by (simp add: map_of_eq_None_iff)
  then show ?thesis by (simp add: stringToCommand_def)
qed

text \<open>
  Claim C1. Each of the five symbolic tokens decodes to the command of the same name, and
  every other string makes \<open>stringToCommand\<close> throw (the result is the error, never
  \<open>NOTHING\<close> or any other command).
\<close>

theorem stringToCommand_decodes:
  "stringToCommand ''nothing'' = Inr NOTHING
   \<and> stringToCommand ''acknowledge'' = Inr ACKNOWLEDGE
   \<and> stringToCommand ''tare'' = Inr TARE
   \<and> stringToCommand ''calibrate'' = Inr CALIBRATE
   \<and> stringToCommand ''timed_measure'' = Inr TIMED_MEASURE
   \<and> (token \<notin> {''nothing'', ''acknowledge'', ''tare'', ''calibrate'', ''timed_measure''}
        \<longrightarrow> stringToCommand token =
              Inl (InvalidArgument (''Invalid command string: '' @ token)))"
proof -
  have hit: "stringToCommand ''nothing'' = Inr NOTHING"
    "stringToCommand ''acknowledge'' = Inr ACKNOWLEDGE"
    "stringToCommand ''tare'' = Inr TARE"
    "stringToCommand ''calibrate'' = Inr CALIBRATE"
    "stringToCommand ''timed_measure'' = Inr TIMED_MEASURE"
    by (simp_all add: stringToCommand_def stringToCommandMap_def)
  have miss: "stringToCommand token =
                Inl (InvalidArgument (''Invalid command string: '' @ token))"
    if "token \<notin> {''nothing'', ''acknowledge'', ''tare'', ''calibrate'', ''timed_measure''}"
    using that by (intro stringToCommand_miss) (simp add: stringToCommandMap_keys)
  from hit miss show ?thesis by blast
qed

theorem stringToCommand_decodes_witness:
  "''Tare'' \<notin> {''nothing'', ''acknowledge'', ''tare'', ''calibrate'', ''timed_measure''}
   \<and> stringToCommand ''Tare'' = Inl (InvalidArgument ''Invalid command string: Tare'')
   \<and> stringToCommand ''tare'' = Inr TARE"
  using stringToCommand_decodes [of "''Tare''"] by simp

section \<open>Facts about floats\<close>

lemma fzero_facts: "\<not> is_nan fzero" "\<not> is_inf fzero" "valof fzero = 0" "significand fzero = 0"
  "\<not> fsign fzero"
  by (simp_all add: float_eval)

lemma float_of_int32_0: "float_of_int32 0 = fzero"
  by (simp add: float_eval)

lemma signed_zero_facts: "\<not> is_nan (mk_float s 0 0)" "valof (mk_float s 0 0) = 0"
  by (cases s; simp add: float_eval)+

lemma float_round_0: "float_round s 0 q = mk_float s 0 0"
  by (simp add: float_round_def)

lemma significand_nonzero:
  assumes "\<not> is_nan f" "\<not> is_inf f" "valof f \<noteq> 0"
  shows "significand f \<noteq> 0"
proof
  assume "significand f = 0"
  moreover from assms(1,2) have "fexp f \<noteq> 255"
    by (auto simp: is_nan_def is_inf_def)
  ultimately have "valof f = 0" by (simp add: valof_def fmag_def)
  with assms(3) show False by simp
qed

lemma fdiv_zero_numerator:
  assumes "\<not> is_nan cf" "valof cf \<noteq> 0"
  shows "fdiv fzero cf = mk_float (fsign cf) 0 0"
proof (cases "is_inf cf")
  case True
  with assms show ?thesis by (simp add: fdiv_def fzero_facts)
next
  case False
  with assms have "significand cf \<noteq> 0" by (simp add: significand_nonzero)
  with assms False show ?thesis
    by (simp add: fdiv_def fzero_facts Let_def float_round_0)
qed

lemma fgt_trans: "fgt a b \<Longrightarrow> fgt b c \<Longrightarrow> fgt a c"
  by (auto simp: fgt_def flt_def)

lemma fgt_fge: "fgt a b \<Longrightarrow> fge b c \<Longrightarrow> fge a c"
  by (auto simp: fgt_def flt_def fge_def)

lemma flt_not_fgt: "flt a c \<Longrightarrow> fge b c \<Longrightarrow> \<not> fgt a b"
  by (auto simp: fgt_def flt_def fge_def)

lemma fge_fzero_refl: "fge fzero fzero"
  by (simp add: fge_def fzero_facts)

section \<open>Rounding\<close>

subsection \<open>Decoding an encoded float\<close>

lemma int_bit_bound:
  assumes "0 \<le> x" "x < 2 ^ k" "k \<le> n"
  shows "\<not> bit (x::int) n"
proof -
  from assms have "x < 2 ^ n"
    by (meson less_le_trans one_le_numeral power_increasing)
  with assms(1) have "x div 2 ^ n = 0" by simp
  then show ?thesis by (simp add: bit_iff_odd)
qed

lemma mask_consts: "(0xFF :: 32 word) = mask 8" "(0x7FFFFF :: 32 word) = mask 23"
  by (simp_all add: mask_eq_exp_minus_1)

lemma sign_const: "bit (0x80000000 :: 32 word) n \<longleftrightarrow> n = 31"
proof -
  have "(0x80000000 :: 32 word) = push_bit 31 1" by simp
  then show ?thesis by (simp only: bit_simps) auto
qed

lemma mk_float_bit:
  assumes "0 \<le> e" "e < 256" "0 \<le> m" "m < 2 ^ 23"
  shows "bit (mk_float s e m) n \<longleftrightarrow>
           (n = 31 \<and> s) \<or> (23 \<le> n \<and> n < 31 \<and> bit e (n - 23)) \<or> (n < 23 \<and> bit m n)"
proof -
  have e: "\<not> bit e k" if "8 \<le> k" for k using assms(1,2) that int_bit_bound [of e 8 k] by simp
  have m: "\<not> bit m k" if "23 \<le> k" for k using assms(3,4) that int_bit_bound [of m 23 k] by simp
  have sg: "bit (if s then 0x80000000 else 0 :: 32 word) n \<longleftrightarrow> n = 31 \<and> s"
  proof (cases s)
    case True
    then show ?thesis by (simp only: if_True sign_const simp_thms)
  next
    case False
    then show ?thesis by simp
  qed
  have ex: "bit (push_bit 23 (word_of_int e :: 32 word)) n \<longleftrightarrow> 23 \<le> n \<and> n < 31 \<and> bit e (n - 23)"
  proof (cases "23 \<le> n \<and> n < 31")
    case True
    then have "n - 23 < 32" by linarith
    with True show ?thesis by (simp add: bit_simps)
  next
    case False
    then have "n < 23 \<or> 31 \<le> n" by auto
    then show ?thesis
    proof
      assume "n < 23" then show ?thesis by (simp add: bit_simps)
    next
      assume "31 \<le> n"
      then have "8 \<le> n - 23" by simp
      then have "\<not> bit e (n - 23)" by (rule e)
      with \<open>31 \<le> n\<close> show ?thesis by (simp add: bit_simps)
    qed
  qed
  have mn: "bit (word_of_int m :: 32 word) n \<longleftrightarrow> n < 23 \<and> bit m n"
  proof (cases "n < 23")
    case True
    then show ?thesis by (simp add: bit_simps)
  next
    case False
    then have "\<not> bit m n" by (simp add: m)
    with False show ?thesis by (simp add: bit_simps)
  qed
  have "bit (mk_float s e m) n \<longleftrightarrow>
          bit (if s then 0x80000000 else 0 :: 32 word) n
          \<or> bit (push_bit 23 (word_of_int e :: 32 word)) n \<or> bit (word_of_int m :: 32 word) n"
    unfolding mk_float_def by (simp only: bit_or_iff)
  then show ?thesis unfolding sg ex mn .
qed

lemma fsign_mk_float:
  assumes "0 \<le> e" "e < 256" "0 \<le> m" "m < 2 ^ 23"
  shows "fsign (mk_float s e m) = s"
  by (simp add: fsign_def mk_float_bit [OF assms])

lemma fman_mk_float:
  assumes "0 \<le> e" "e < 256" "0 \<le> m" "m < 2 ^ 23"
  shows "fman (mk_float s e m) = m"
proof -
  have "mk_float s e m AND 0x7FFFFF = word_of_int m"
  proof (rule bit_word_eqI)
    fix n assume "n < LENGTH(32)"
    have m: "\<not> bit m n" if "23 \<le> n" using assms(3,4) that int_bit_bound [of m 23 n] by simp
    show "bit (mk_float s e m AND 0x7FFFFF) n = bit (word_of_int m :: 32 word) n"
      using \<open>n < LENGTH(32)\<close> m
      by (cases "n < 23") (auto simp: mask_consts bit_simps mk_float_bit [OF assms])
  qed
  moreover have "uint (word_of_int m :: 32 word) = m"
  proof -
    from assms(4) have "m < 2 ^ 32" by simp
    with assms(3) show ?thesis by (simp add: uint_word_of_int take_bit_int_eq_self)
  qed
  ultimately show ?thesis by (simp add: fman_def)
qed

lemma fexp_mk_float:
  assumes "0 \<le> e" "e < 256" "0 \<le> m" "m < 2 ^ 23"
  shows "fexp (mk_float s e m) = e"
proof -
  have e: "\<not> bit e k" if "8 \<le> k" for k using assms(1,2) that int_bit_bound [of e 8 k] by simp
  have "drop_bit 23 (mk_float s e m) AND 0xFF = word_of_int e"
  proof (rule bit_word_eqI)
    fix n assume n: "n < LENGTH(32)"
    show "bit (drop_bit 23 (mk_float s e m) AND 0xFF) n = bit (word_of_int e :: 32 word) n"
    proof (cases "n < 8")
      case True
      then show ?thesis
        by (simp add: mask_consts bit_simps mk_float_bit [OF assms])
    next
      case False
      then have "\<not> bit e n" by (simp add: e)
      with False show ?thesis by (simp add: mask_consts bit_simps)
    qed
  qed
  moreover have "uint (word_of_int e :: 32 word) = e"
  proof -
    from assms(2) have "e < 2 ^ 32" by simp
    with assms(1) show ?thesis by (simp add: uint_word_of_int take_bit_int_eq_self)
  qed
  ultimately show ?thesis by (simp add: fexp_def)
qed

subsection \<open>The exponent search and the rounding of a quotient\<close>

lemma find_exp_step: "e < 128 \<Longrightarrow> q \<le> p \<Longrightarrow> find_exp e q p = find_exp (e + 1) (2 * q) p"
  by (subst find_exp.simps) simp

lemma find_exp_stop: "\<not> (e < 128 \<and> q \<le> p) \<Longrightarrow> find_exp e q p = e"
  by (subst find_exp.simps) auto

lemma find_exp_range: "e \<le> 128 \<Longrightarrow> e \<le> find_exp e q p \<and> find_exp e q p \<le> 128"
proof (induction e q p rule: find_exp.induct)
  case (1 e q p)
  show ?case
  proof (cases "e < 128 \<and> q \<le> p")
    case True
    with 1 have "e + 1 \<le> find_exp (e + 1) (2 * q) p \<and> find_exp (e + 1) (2 * q) p \<le> 128"
      by simp
    with True show ?thesis by (simp add: find_exp_step)
  next
    case False
    with 1(2) show ?thesis by (simp add: find_exp_stop)
  qed
qed

lemma find_exp_upper:
  "0 < q \<Longrightarrow> e \<le> 128 \<Longrightarrow> find_exp e q p < 128 \<Longrightarrow> p < q * 2 ^ nat (find_exp e q p - e)"
proof (induction e q p rule: find_exp.induct)
  case (1 e q p)
  show ?case
  proof (cases "e < 128 \<and> q \<le> p")
    case True
    let ?r = "find_exp (e + 1) (2 * q) p"
    from True have r: "find_exp e q p = ?r" by (simp add: find_exp_step)
    from True have "e + 1 \<le> 128" by simp
    then have ge: "e + 1 \<le> ?r" using find_exp_range by blast
    from 1(1) [OF True] 1(2) \<open>e + 1 \<le> 128\<close> 1(4) r
    have "p < 2 * q * 2 ^ nat (?r - (e + 1))" by simp
    also have "\<dots> = q * 2 ^ Suc (nat (?r - (e + 1)))" by simp
    also from ge have "Suc (nat (?r - (e + 1))) = nat (?r - e)" by linarith
    finally show ?thesis unfolding r .
  next
    case False
    then have r: "find_exp e q p = e" by (rule find_exp_stop)
    with 1(4) False have "p < q" by simp
    with r show ?thesis by simp
  qed
qed

lemma find_exp_lower:
  "0 < q \<Longrightarrow> e \<le> 128 \<Longrightarrow> e < find_exp e q p \<Longrightarrow> q * 2 ^ nat (find_exp e q p - e - 1) \<le> p"
proof (induction e q p rule: find_exp.induct)
  case (1 e q p)
  show ?case
  proof (cases "e < 128 \<and> q \<le> p")
    case True
    let ?r = "find_exp (e + 1) (2 * q) p"
    from True have r: "find_exp e q p = ?r" by (simp add: find_exp_step)
    from True have le: "e + 1 \<le> 128" by simp
    then have ge: "e + 1 \<le> ?r" using find_exp_range by blast
    show ?thesis
    proof (cases "?r = e + 1")
      case eq: True
      with True show ?thesis unfolding r by simp
    next
      case False
      with ge have gt: "e + 1 < ?r" by simp
      from gt have s: "nat (?r - e - 1) = Suc (nat (?r - (e + 1) - 1))" by linarith
      have "q * 2 ^ nat (?r - e - 1) = 2 * q * 2 ^ nat (?r - (e + 1) - 1)"
        unfolding s by simp
      also from 1(1) [OF True] 1(2) le gt have "\<dots> \<le> p" by simp
      finally show ?thesis unfolding r .
    qed
  next
    case False
    then have r: "find_exp e q p = e" by (rule find_exp_stop)
    with 1(4) show ?thesis by simp
  qed
qed

lemma round_even_error:
  assumes "0 < d"
  shows "\<bar>of_int (round_even n d) - (of_int n / of_int d :: rat)\<bar> \<le> 1 / 2"
proof -
  let ?k = "n div d" and ?r = "n mod d"
  define t :: rat where "t = of_int ?r / of_int d"
  from assms have r: "0 \<le> ?r" "?r < d" by simp_all
  have n: "n = d * ?k + ?r" by simp
  have d: "(0::rat) < of_int d" using assms by simp
  have x: "(of_int n / of_int d :: rat) = of_int ?k + t"
  proof -
    have "(of_int n :: rat) = of_int d * of_int ?k + of_int ?r"
      by (metis n of_int_add of_int_mult)
    with assms show ?thesis by (simp add: field_simps t_def)
  qed
  have t0: "0 \<le> t" using r d by (simp add: t_def)
  have t1: "t < 1" using r d by (simp add: t_def)
  consider "2 * ?r < d" | "d < 2 * ?r" | "2 * ?r = d" by linarith
  then show ?thesis
  proof cases
    case 1
    then have k: "round_even n d = ?k" by (simp add: round_even_def Let_def)
    from 1 have "(2::rat) * of_int ?r < of_int d"
      by (metis of_int_less_iff of_int_mult of_int_numeral)
    then have "t < 1 / 2" using d by (simp add: t_def field_simps)
    with t0 show ?thesis unfolding k x by simp
  next
    case 2
    then have k: "round_even n d = ?k + 1" by (simp add: round_even_def Let_def)
    from 2 have "(of_int d :: rat) < 2 * of_int ?r"
      by (metis of_int_less_iff of_int_mult of_int_numeral)
    then have "1 / 2 < t" using d by (simp add: t_def field_simps)
    with t1 show ?thesis unfolding k x by simp
  next
    case 3
    then have k: "round_even n d = ?k \<or> round_even n d = ?k + 1"
      by (simp add: round_even_def Let_def)
    from 3 have "(2::rat) * of_int ?r = of_int d"
      by (metis of_int_eq_iff of_int_mult of_int_numeral)
    then have "t = 1 / 2" using d by (simp add: t_def field_simps)
    with k show ?thesis unfolding x by auto
  qed
qed

lemma scaled_le:
  assumes "0 < q" "q * 2 ^ n \<le> p * 2 ^ k"
  shows "(2::rat) powi (int n - int k) \<le> of_int p / of_int q"
proof -
  from assms(2) have "(of_int (q * 2 ^ n) :: rat) \<le> of_int (p * 2 ^ k)"
    by (simp only: of_int_le_iff)
  then have a: "(of_int q :: rat) * 2 ^ n \<le> of_int p * 2 ^ k" by simp
  have q: "(0::rat) < of_int q" using assms(1) by simp
  have "(2::rat) powi (int n - int k) = 2 ^ n / 2 ^ k"
    by (simp add: power_int_diff)
  also have "\<dots> \<le> of_int p / of_int q"
    using a q by (simp add: field_simps)
  finally show ?thesis .
qed

lemma scaled_less:
  assumes "0 < q" "p * 2 ^ k < q * 2 ^ n"
  shows "of_int p / of_int q < (2::rat) powi (int n - int k)"
proof -
  from assms(2) have "(of_int (p * 2 ^ k) :: rat) < of_int (q * 2 ^ n)"
    by (simp only: of_int_less_iff)
  then have a: "(of_int p :: rat) * 2 ^ k < of_int q * 2 ^ n" by simp
  have q: "(0::rat) < of_int q" using assms(1) by simp
  have "of_int p / of_int q < (2::rat) ^ n / 2 ^ k"
    using a q by (simp add: field_simps)
  also have "\<dots> = (2::rat) powi (int n - int k)"
    by (simp add: power_int_diff)
  finally show ?thesis .
qed

lemma scaled_ratio:
  assumes "0 < q"
  shows "(of_int (p * 2 ^ nat (23 - e)) / of_int (q * 2 ^ nat (e - 23)) :: rat)
           = of_int p / of_int q * 2 powi (23 - e)"
proof (cases "e \<le> 23")
  case True
  then have "nat (e - 23) = 0" and "(2::rat) powi (23 - e) = 2 ^ nat (23 - e)"
    by (simp_all add: power_int_def)
  then show ?thesis by simp
next
  case False
  have "(2::rat) powi (23 - e) = inverse (2 powi (e - 23))"
    by (metis minus_diff_eq power_int_minus)
  also from False have "(2::rat) powi (e - 23) = 2 ^ nat (e - 23)"
    by (simp add: power_int_def)
  finally have i: "(2::rat) powi (23 - e) = inverse (2 ^ nat (e - 23))" .
  from False have z: "nat (23 - e) = 0" by simp
  show ?thesis unfolding i z by (simp add: divide_simps)
qed

text \<open>
  A quotient in the normal range rounds to a finite, non-zero float of the given sign,
  with a relative error of at most \<open>2 ^ -24\<close>.
\<close>

lemma float_round_normal:
  fixes p q :: int
  defines "x \<equiv> (of_int p / of_int q :: rat)"
  assumes pq: "0 < p" "0 < q"
    and lo: "2 powi (- 126) \<le> x"
    and hi: "x < 2 powi 127"
  shows "\<not> is_nan (float_round s p q)" "\<not> is_inf (float_round s p q)"
    "fsign (float_round s p q) = s" "significand (float_round s p q) \<noteq> 0"
    "\<bar>fmag (float_round s p q) - x\<bar> \<le> x / 2 ^ 24"
proof -
  define e0 where "e0 = find_exp (- 126) q (p * 2 ^ 125)"
  define n where "n = p * 2 ^ nat (23 - e0)"
  define d where "d = q * 2 ^ nat (e0 - 23)"
  define m0 where "m0 = round_even n d"
  define y where "y = x * 2 powi (23 - e0)"
  have range: "- 126 \<le> e0" "e0 \<le> 128"
    using find_exp_range [of "- 126" q "p * 2 ^ 125"] by (simp_all add: e0_def)
  have L: "2 powi e0 \<le> x"
  proof (cases "e0 = - 126")
    case True
    with lo show ?thesis by simp
  next
    case False
    with range have gt: "- 126 < e0" by simp
    then have "q * 2 ^ nat (e0 - (- 126) - 1) \<le> p * 2 ^ 125"
      unfolding e0_def using pq(2) by (intro find_exp_lower) simp_all
    with pq(2) have "(2::rat) powi (int (nat (e0 - (- 126) - 1)) - int 125) \<le> x"
      unfolding x_def by (rule scaled_le)
    moreover from gt have "int (nat (e0 - (- 126) - 1)) - int 125 = e0" by simp
    ultimately show ?thesis by (simp only:)
  qed
  have e126: "e0 \<le> 126"
  proof (rule ccontr)
    assume "\<not> e0 \<le> 126"
    then have "127 \<le> e0" by simp
    then have "(2::rat) powi 127 \<le> 2 powi e0" by (intro power_int_increasing) simp_all
    with L hi show False by simp
  qed
  have U: "x < 2 powi (e0 + 1)"
  proof -
    from e126 have "e0 < 128" by simp
    then have "p * 2 ^ 125 < q * 2 ^ nat (e0 - (- 126))"
      unfolding e0_def using pq(2) by (intro find_exp_upper) simp_all
    with pq(2) have "x < (2::rat) powi (int (nat (e0 - (- 126))) - int 125)"
      unfolding x_def by (rule scaled_less)
    moreover from range have "int (nat (e0 - (- 126))) - int 125 = e0 + 1" by simp
    ultimately show ?thesis by (simp only:)
  qed
  have yr: "y = of_int n / of_int d"
    unfolding y_def x_def n_def d_def using pq(2) by (simp only: scaled_ratio)
  have s_pos: "(0::rat) < 2 powi (23 - e0)" by simp
  have ylo: "2 ^ 23 \<le> y"
  proof -
    have "(2::rat) ^ 23 = 2 powi (e0 + (23 - e0))" by simp
    also have "\<dots> = 2 powi e0 * 2 powi (23 - e0)" by (rule power_int_add) simp
    also have "\<dots> \<le> x * 2 powi (23 - e0)" using L s_pos by (simp only: mult_le_cancel_right_pos)
    finally show ?thesis by (simp add: y_def)
  qed
  have yhi: "y < 2 ^ 24"
  proof -
    have "y < 2 powi (e0 + 1) * 2 powi (23 - e0)"
      unfolding y_def using U s_pos by (simp only: mult_less_cancel_right_pos)
    also have "\<dots> = 2 powi ((e0 + 1) + (23 - e0))" by (rule power_int_add [symmetric]) simp
    also have "\<dots> = 2 ^ 24" by simp
    finally show ?thesis .
  qed
  have dpos: "0 < d" using pq(2) by (simp add: d_def)
  have err: "\<bar>of_int m0 - y\<bar> \<le> 1 / 2"
    unfolding m0_def yr using dpos by (rule round_even_error)
  from err have b: "y - 1 / 2 \<le> of_int m0" "of_int m0 \<le> y + 1 / 2" by linarith+
  have m_lo: "2 ^ 23 \<le> m0"
  proof -
    from b(1) ylo have "(8388607::rat) < of_int m0" by simp
    then have "8388607 < m0" by simp
    then show ?thesis by simp
  qed
  have m_hi: "m0 \<le> 2 ^ 24"
  proof -
    from b(2) yhi have "(of_int m0 :: rat) < 16777217" by simp
    then have "m0 < 16777217" by simp
    then show ?thesis by simp
  qed
  define e where "e = (if m0 = 2 ^ 24 then e0 + 1 else e0)"
  define m where "m = (if m0 = 2 ^ 24 then 2 ^ 23 else m0)"
  have e_range: "- 126 \<le> e" "e \<le> 127" using range e126 by (simp_all add: e_def)
  have m_range: "2 ^ 23 \<le> m" "m < 2 ^ 24" using m_lo m_hi by (auto simp: m_def)
  have pne: "(p = 0) = False" using pq(1) by simp
  have "float_round s p q =
          (if 127 < e then mk_float s 255 0
           else if m < 2 ^ 23 then mk_float s 0 m
           else mk_float s (e + 127) (m - 2 ^ 23))"
    unfolding float_round_def Let_def e_def m_def m0_def n_def d_def e0_def
    by (simp only: pne if_False)
  with e_range m_range have f: "float_round s p q = mk_float s (e + 127) (m - 2 ^ 23)"
    by simp
  have a: "0 \<le> e + 127" "e + 127 < 256" "0 \<le> m - 2 ^ 23" "m - 2 ^ 23 < 2 ^ 23"
    using e_range m_range by simp_all
  have fe: "fexp (float_round s p q) = e + 127" unfolding f using a by (rule fexp_mk_float)
  have fm: "fman (float_round s p q) = m - 2 ^ 23" unfolding f using a by (rule fman_mk_float)
  have fs: "fsign (float_round s p q) = s" unfolding f using a by (rule fsign_mk_float)
  from fe e_range have ne: "fexp (float_round s p q) \<noteq> 255" "fexp (float_round s p q) \<noteq> 0"
    by simp_all
  have sig: "significand (float_round s p q) = m"
    using ne fm by (simp add: significand_def)
  have ex: "exponent (float_round s p q) = e - 23"
    using ne fe by (simp add: exponent_def)
  have mag: "fmag (float_round s p q) = of_int m0 * 2 powi (e0 - 23)"
  proof (cases "m0 = 2 ^ 24")
    case True
    have "(2::rat) powi (e0 + 1 - 23) = 2 powi (1 + (e0 - 23))" by (simp add: algebra_simps)
    also have "\<dots> = 2 powi 1 * 2 powi (e0 - 23)" by (rule power_int_add) simp
    finally have "(2::rat) powi (e0 + 1 - 23) = 2 * 2 powi (e0 - 23)" by simp
    with True show ?thesis using ne by (simp add: fmag_def sig ex e_def m_def)
  next
    case False
    then show ?thesis using ne by (simp add: fmag_def sig ex e_def m_def)
  qed
  show "\<not> is_nan (float_round s p q)" using ne by (simp add: is_nan_def)
  show "\<not> is_inf (float_round s p q)" using ne by (simp add: is_inf_def)
  show "fsign (float_round s p q) = s" by (rule fs)
  show "significand (float_round s p q) \<noteq> 0" using sig m_range by simp
  show "\<bar>fmag (float_round s p q) - x\<bar> \<le> x / 2 ^ 24"
  proof -
    have t_pos: "(0::rat) < 2 powi (e0 - 23)" by simp
    have xy: "x = y * 2 powi (e0 - 23)"
    proof -
      have "(2::rat) powi (23 - e0) * 2 powi (e0 - 23) = 2 powi ((23 - e0) + (e0 - 23))"
        by (rule power_int_add [symmetric]) simp
      then have "(2::rat) powi (23 - e0) * 2 powi (e0 - 23) = 1" by simp
      then show ?thesis by (simp add: y_def mult.assoc)
    qed
    have "fmag (float_round s p q) - x = (of_int m0 - y) * 2 powi (e0 - 23)"
      unfolding mag by (subst xy) (simp add: algebra_simps)
    then have "\<bar>fmag (float_round s p q) - x\<bar> = \<bar>of_int m0 - y\<bar> * 2 powi (e0 - 23)"
      using t_pos by (simp add: abs_mult)
    also have "\<dots> \<le> 1 / 2 * 2 powi (e0 - 23)"
      using err t_pos by (simp only: mult_le_cancel_right_pos)
    also have "\<dots> = 2 powi e0 / 2 ^ 24"
    proof -
      have "(2::rat) powi e0 = 2 powi (23 + (e0 - 23))" by simp
      also have "\<dots> = 2 powi 23 * 2 powi (e0 - 23)" by (rule power_int_add) simp
      finally show ?thesis by simp
    qed
    also have "\<dots> \<le> x / 2 ^ 24" using L by (simp add: divide_right_mono)
    finally show ?thesis .
  qed
qed

subsection \<open>Division in the normal range\<close>

lemma finite_fexp: "\<not> is_nan f \<Longrightarrow> \<not> is_inf f \<Longrightarrow> fexp f \<noteq> 255"
  by (auto simp: is_nan_def is_inf_def)

lemma fmag_finite:
  "\<not> is_nan f \<Longrightarrow> \<not> is_inf f \<Longrightarrow> fmag f = of_int (significand f) * 2 powi exponent f"
  by (simp add: fmag_def finite_fexp)

lemma significand_nonneg: "0 \<le> significand f"
  by (simp add: significand_def fman_def)

lemma ratio_shift:
  "(of_int (M * 2 ^ nat k) / of_int (N * 2 ^ nat (- k)) :: rat) = of_int M / of_int N * 2 powi k"
proof (cases "0 \<le> k")
  case True
  then have "nat (- k) = 0" and "(2::rat) powi k = 2 ^ nat k"
    by (simp_all add: power_int_def)
  then show ?thesis by simp
next
  case False
  have "(2::rat) powi k = inverse (2 powi (- k))"
    by (simp add: power_int_minus)
  also from False have "(2::rat) powi (- k) = 2 ^ nat (- k)"
    by (simp add: power_int_def)
  finally have i: "(2::rat) powi k = inverse (2 ^ nat (- k))" .
  from False have z: "nat k = 0" by simp
  show ?thesis unfolding i z by (simp add: divide_simps)
qed

lemma fdiv_normal:
  assumes a: "\<not> is_nan a" "\<not> is_inf a" "significand a \<noteq> 0"
    and b: "\<not> is_nan b" "\<not> is_inf b" "significand b \<noteq> 0"
    and lo: "2 powi (- 126) \<le> fmag a / fmag b"
    and hi: "fmag a / fmag b < 2 powi 127"
  shows "\<not> is_nan (fdiv a b)" "\<not> is_inf (fdiv a b)"
    "fsign (fdiv a b) = (fsign a \<noteq> fsign b)" "significand (fdiv a b) \<noteq> 0"
    "\<bar>fmag (fdiv a b) - fmag a / fmag b\<bar> \<le> fmag a / fmag b / 2 ^ 24"
proof -
  define P where "P = significand a * 2 ^ nat (exponent a - exponent b)"
  define Q where "Q = significand b * 2 ^ nat (exponent b - exponent a)"
  from a(3) significand_nonneg [of a] have sa: "0 < significand a" by simp
  from b(3) significand_nonneg [of b] have sb: "0 < significand b" by simp
  have P: "0 < P" using sa by (simp add: P_def)
  have Q: "0 < Q" using sb by (simp add: Q_def)
  have "exponent b - exponent a = - (exponent a - exponent b)" by simp
  then have "(of_int P / of_int Q :: rat) =
      of_int (significand a) / of_int (significand b) * 2 powi (exponent a - exponent b)"
    unfolding P_def Q_def by (simp only: ratio_shift)
  also have "\<dots> = fmag a / fmag b"
    using a b by (simp add: fmag_finite power_int_diff)
  finally have ratio: "(of_int P / of_int Q :: rat) = fmag a / fmag b" .
  have f: "fdiv a b = float_round (fsign a \<noteq> fsign b) P Q"
    using a b by (simp add: fdiv_def Let_def P_def Q_def)
  from lo hi have lo': "2 powi (- 126) \<le> (of_int P / of_int Q :: rat)"
    and hi': "(of_int P / of_int Q :: rat) < 2 powi 127"
    by (simp_all only: ratio)
  note r = float_round_normal [OF P Q lo' hi', of "fsign a \<noteq> fsign b"]
  show "\<not> is_nan (fdiv a b)" unfolding f by (rule r(1))
  show "\<not> is_inf (fdiv a b)" unfolding f by (rule r(2))
  show "fsign (fdiv a b) = (fsign a \<noteq> fsign b)" unfolding f by (rule r(3))
  show "significand (fdiv a b) \<noteq> 0" unfolding f by (rule r(4))
  show "\<bar>fmag (fdiv a b) - fmag a / fmag b\<bar> \<le> fmag a / fmag b / 2 ^ 24"
    unfolding f using r(5) by (simp only: ratio)
qed

lemma float_of_int32_normal:
  assumes "w \<noteq> 0"
  shows "\<not> is_nan (float_of_int32 w)" "\<not> is_inf (float_of_int32 w)"
    "fsign (float_of_int32 w) = (sint w < 0)" "significand (float_of_int32 w) \<noteq> 0"
    "1 / 2 \<le> fmag (float_of_int32 w)" "fmag (float_of_int32 w) \<le> 2 ^ 32"
    "\<bar>fmag (float_of_int32 w) - of_int \<bar>sint w\<bar>\<bar> \<le> of_int \<bar>sint w\<bar> / 2 ^ 24"
proof -
  define p where "p = \<bar>sint w\<bar>"
  from assms have "sint w \<noteq> 0" by (simp add: signed_eq_0_iff)
  then have p: "0 < p" by (simp add: p_def)
  then have p1: "(1::rat) \<le> of_int p" by simp
  have "- (2 ^ 31) \<le> sint w" "sint w < 2 ^ 31"
    using sint_ge [of w] sint_lt [of w] by simp_all
  then have "p \<le> 2 ^ 31" by (simp add: p_def)
  then have "(of_int p :: rat) \<le> of_int (2 ^ 31)" by (simp only: of_int_le_iff)
  then have p2: "(of_int p :: rat) \<le> 2 ^ 31" by simp
  have lo: "2 powi (- 126) \<le> (of_int p / of_int 1 :: rat)"
  proof -
    have "(2::rat) powi (- 126) \<le> 2 powi 0" by (intro power_int_increasing) simp_all
    with p1 show ?thesis by simp
  qed
  have hi: "(of_int p / of_int 1 :: rat) < 2 powi 127"
  proof -
    have "(2::rat) powi 31 < 2 powi 127" by (intro power_int_strict_increasing) simp_all
    with p2 show ?thesis by simp
  qed
  have one: "(0::int) < 1" by simp
  note r = float_round_normal [OF p one lo hi, of "sint w < 0"]
  have f: "float_of_int32 w = float_round (sint w < 0) p 1"
    by (simp add: float_of_int32_def p_def)
  show "\<not> is_nan (float_of_int32 w)" unfolding f by (rule r(1))
  show "\<not> is_inf (float_of_int32 w)" unfolding f by (rule r(2))
  show "fsign (float_of_int32 w) = (sint w < 0)" unfolding f by (rule r(3))
  show "significand (float_of_int32 w) \<noteq> 0" unfolding f by (rule r(4))
  define pr where "pr = (of_int p :: rat)"
  define F where "F = fmag (float_of_int32 w)"
  from r(5) have "\<bar>F - pr\<bar> \<le> pr / 2 ^ 24"
    unfolding f F_def pr_def by simp
  then have "\<bar>F - pr\<bar> \<le> pr / 16777216" by simp
  then have e: "F - pr \<le> pr / 16777216" "pr - F \<le> pr / 16777216" by linarith+
  from p1 have q1: "1 \<le> pr" by (simp add: pr_def)
  from p2 have q2: "pr \<le> 2147483648" by (simp add: pr_def)
  from e(2) q1 have "1 / 2 \<le> F" by linarith
  then show "1 / 2 \<le> fmag (float_of_int32 w)" by (simp add: F_def)
  from e(1) q1 q2 have "F \<le> 4294967296" by linarith
  then show "fmag (float_of_int32 w) \<le> 2 ^ 32" by (simp add: F_def)
  from r(5) show "\<bar>fmag (float_of_int32 w) - of_int \<bar>sint w\<bar>\<bar> \<le> of_int \<bar>sint w\<bar> / 2 ^ 24"
    unfolding f p_def by simp
qed

subsection \<open>Weighing the calibration sample again\<close>

lemma recover_weight:
  fixes W Dm c g :: rat
  assumes "0 < W" "0 < Dm" "0 < c"
    and c: "\<bar>c - Dm / W\<bar> \<le> Dm / W / 2 ^ 24"
    and g: "\<bar>g - Dm / c\<bar> \<le> Dm / c / 2 ^ 24"
  shows "\<bar>g - W\<bar> \<le> W / 2 ^ 22"
proof -
  define r where "r = Dm / c"
  have r: "0 < r" using assms(2,3) by (simp add: r_def)
  have Dm: "Dm = r * c" using assms(3) by (simp add: r_def)
  from c have "c - Dm / W \<le> Dm / W / 2 ^ 24" "- (Dm / W / 2 ^ 24) \<le> c - Dm / W"
    by linarith+
  then have "c * W - Dm \<le> Dm / 2 ^ 24" "- (Dm / 2 ^ 24) \<le> c * W - Dm"
    using assms(1) by (simp_all add: field_simps)
  then have "c * W \<le> c * (r * (1 + 1 / 2 ^ 24))" "c * (r * (1 - 1 / 2 ^ 24)) \<le> c * W"
    unfolding Dm by (simp_all add: algebra_simps)
  then have w: "W \<le> r * (1 + 1 / 2 ^ 24)" "r * (1 - 1 / 2 ^ 24) \<le> W"
    using assms(3) by (simp_all only: mult_le_cancel_left_pos)
  from g have gg: "g - r \<le> r / 2 ^ 24" "- (r / 2 ^ 24) \<le> g - r"
    unfolding r_def by linarith+
  from w gg have "W * 16777216 \<le> r * 16777217" "r * 16777215 \<le> W * 16777216"
    "g * 16777216 \<le> 16777217 * r" "16777215 * r \<le> g * 16777216"
    by (simp_all add: field_simps)
  note f = this
  from f(2) assms(1) have r2: "r \<le> 2 * W" by linarith
  from f(1,4) have "W * 16777216 - g * 16777216 \<le> 2 * r" by linarith
  with r2 have 1: "W * 4194304 - g * 4194304 \<le> W" by linarith
  from f(2,3) have "g * 16777216 - W * 16777216 \<le> 2 * r" by linarith
  with r2 have 2: "g * 4194304 - W * 4194304 \<le> W" by linarith
  from 1 have "W - g \<le> W / 4194304" by linarith
  moreover from 2 have "g - W \<le> W / 4194304" by linarith
  ultimately have "\<bar>g - W\<bar> \<le> W / 4194304" by linarith
  then show ?thesis by simp
qed

lemma fmag_nonneg: "0 \<le> fmag f"
  using significand_nonneg [of f] by (simp add: fmag_def)

lemma abs_valof: "\<bar>valof f\<bar> = fmag f"
  using fmag_nonneg [of f] by (simp add: valof_def)

lemma fmag_below_inf: "fmag f < 2 ^ 128 \<Longrightarrow> \<not> is_inf f"
  by (auto simp: is_inf_def fmag_def)

lemma fmag_pos_significand: "\<not> is_nan f \<Longrightarrow> \<not> is_inf f \<Longrightarrow> 0 < fmag f \<Longrightarrow> significand f \<noteq> 0"
  by (auto simp: fmag_finite)

lemma range_consts:
  "(2::rat) powi (- 126) \<le> 1 / 2 / 2 ^ 123" "(2::rat) ^ 32 / (1 / 2 ^ 92) < 2 powi 127"
  "(2::rat) powi (- 126) \<le> 1 / 2 / 2 ^ 90" "(2::rat) ^ 32 / (1 / 2 ^ 90) < 2 powi 127"
  by (simp_all add: power_int_minus)

lemma calibration_recovers_weight:
  assumes d: "avg \<noteq> zo"
    and w: "\<not> is_nan w" "1 / 2 ^ 90 \<le> \<bar>valof w\<bar>" "\<bar>valof w\<bar> \<le> 2 ^ 90"
  shows "\<not> is_nan (trueWeight zo (fdiv (float_of_int32 (avg - zo)) w) avg)"
    and "\<bar>valof (trueWeight zo (fdiv (float_of_int32 (avg - zo)) w) avg) - valof w\<bar>
           \<le> \<bar>valof w\<bar> / 2 ^ 22"
proof -
  define dd where "dd = float_of_int32 (avg - zo)"
  define cf where "cf = fdiv dd w"
  define g where "g = fdiv dd cf"
  define Dm where "Dm = fmag dd"
  define W where "W = fmag w"
  define c where "c = fmag cf"
  from d have "avg - zo \<noteq> 0" by simp
  note dn = float_of_int32_normal [OF this, folded dd_def]
  from dn(5,6) have Dm: "1 / 2 \<le> Dm" "Dm \<le> 2 ^ 32" by (simp_all add: Dm_def)
  from w(2,3) have W: "1 / 2 ^ 90 \<le> W" "W \<le> 2 ^ 90" by (simp_all add: abs_valof W_def)
  from W(1) have Wpos: "0 < W" by (rule less_le_trans [rotated]) simp
  from Dm(1) have Dpos: "0 < Dm" by (rule less_le_trans [rotated]) simp
  have winf: "\<not> is_inf w"
  proof (rule fmag_below_inf)
    have "(2::rat) ^ 90 < 2 ^ 128" by simp
    with W(2) show "fmag w < 2 ^ 128" unfolding W_def by (rule le_less_trans)
  qed
  have wsig: "significand w \<noteq> 0"
    using w(1) winf Wpos unfolding W_def by (rule fmag_pos_significand)
  have lo1: "2 powi (- 126) \<le> Dm / W"
  proof -
    have "1 / 2 / 2 ^ 90 \<le> Dm / W" using Dm(1) Wpos W(2) by (intro frac_le) simp_all
    with range_consts(3) show ?thesis by (rule order_trans)
  qed
  have hi1: "Dm / W < 2 powi 127"
  proof -
    have "Dm / W \<le> 2 ^ 32 / (1 / 2 ^ 90)" using Dm(2) Dpos W(1) by (intro frac_le) simp_all
    then show ?thesis using range_consts(4) by (rule le_less_trans)
  qed
  note cn = fdiv_normal [OF dn(1,2,4) w(1) winf wsig lo1 [unfolded Dm_def W_def]
      hi1 [unfolded Dm_def W_def], folded cf_def]
  from cn(5) have cerr: "\<bar>c - Dm / W\<bar> \<le> Dm / W / 2 ^ 24"
    by (simp only: c_def Dm_def W_def)
  define r1 where "r1 = Dm / W"
  have r1: "1 / 2 / 2 ^ 90 \<le> r1" "r1 \<le> 2 ^ 32 / (1 / 2 ^ 90)"
    unfolding r1_def using Dm Dpos W Wpos by (intro frac_le; simp)+
  from cerr have "\<bar>c - r1\<bar> \<le> r1 / 16777216" by (simp add: r1_def)
  then have ce: "c - r1 \<le> r1 / 16777216" "r1 - c \<le> r1 / 16777216" by linarith+
  from r1(1) have "0 < r1" by (rule less_le_trans [rotated]) simp
  with ce have cb: "r1 / 2 \<le> c" "c \<le> 2 * r1" by linarith+
  from cb(1) r1(1) have clo: "1 / 2 ^ 92 \<le> c" by simp
  from cb(2) r1(2) have chi: "c \<le> 2 ^ 123" by simp
  from clo have cpos: "0 < c" by (rule less_le_trans [rotated]) simp
  have lo2: "2 powi (- 126) \<le> Dm / c"
  proof -
    have "1 / 2 / 2 ^ 123 \<le> Dm / c" using Dm(1) cpos chi by (intro frac_le) simp_all
    with range_consts(1) show ?thesis by (rule order_trans)
  qed
  have hi2: "Dm / c < 2 powi 127"
  proof -
    have "Dm / c \<le> 2 ^ 32 / (1 / 2 ^ 92)" using Dm(2) Dpos clo by (intro frac_le) simp_all
    then show ?thesis using range_consts(2) by (rule le_less_trans)
  qed
  note gn = fdiv_normal [OF dn(1,2,4) cn(1,2,4) lo2 [unfolded Dm_def c_def]
      hi2 [unfolded Dm_def c_def], folded g_def]
  from gn(5) have gerr: "\<bar>fmag g - Dm / c\<bar> \<le> Dm / c / 2 ^ 24"
    by (simp only: c_def Dm_def)
  from Wpos Dpos cpos cerr gerr have rec: "\<bar>fmag g - W\<bar> \<le> W / 2 ^ 22"
    by (rule recover_weight)
  have sg: "fsign g = fsign w" using gn(3) cn(3) by auto
  have tw: "trueWeight zo (fdiv (float_of_int32 (avg - zo)) w) avg = g"
    by (simp add: trueWeight_def g_def cf_def dd_def)
  show "\<not> is_nan (trueWeight zo (fdiv (float_of_int32 (avg - zo)) w) avg)"
    unfolding tw by (rule gn(1))
  have "\<bar>valof g - valof w\<bar> = \<bar>fmag g - W\<bar>"
    by (cases "fsign w") (simp_all add: valof_def sg W_def)
  with rec show "\<bar>valof (trueWeight zo (fdiv (float_of_int32 (avg - zo)) w) avg) - valof w\<bar>
           \<le> \<bar>valof w\<bar> / 2 ^ 22"
    unfolding tw by (simp add: abs_valof W_def)
qed

section \<open>Computing a weight\<close>

lemma double_rounding:
  fixes G r t :: rat
  assumes "0 < t" and r: "\<bar>r - t\<bar> \<le> t / 2 ^ 24" and G: "\<bar>G - r\<bar> \<le> r / 2 ^ 24"
  shows "\<bar>G - t\<bar> \<le> t / 2 ^ 22"
proof -
  from r have "\<bar>r - t\<bar> \<le> t / 16777216" by simp
  then have a: "r * 16777216 \<le> t * 16777217" "t * 16777215 \<le> r * 16777216" by linarith+
  from G have "\<bar>G - r\<bar> \<le> r / 16777216" by simp
  then have b: "G * 16777216 \<le> r * 16777217" "r * 16777215 \<le> G * 16777216" by linarith+
  from a(1) assms(1) have r2: "r \<le> 2 * t" by linarith
  from a(1) b(1) r2 have "G * 4194304 - t * 4194304 \<le> t" by linarith
  then have 1: "G - t \<le> t / 4194304" by linarith
  from a(2) b(2) r2 have "t * 4194304 - G * 4194304 \<le> t" by linarith
  then have 2: "t - G \<le> t / 4194304" by linarith
  from 1 2 have "\<bar>G - t\<bar> \<le> t / 4194304" by linarith
  then show ?thesis by simp
qed

lemma trueWeight_accuracy:
  assumes d: "raw \<noteq> zo"
    and c: "\<not> is_nan cf" "1 / 2 ^ 90 \<le> \<bar>valof cf\<bar>" "\<bar>valof cf\<bar> \<le> 2 ^ 90"
  shows "\<not> is_nan (trueWeight zo cf raw)"
    and "\<bar>valof (trueWeight zo cf raw) - of_int (sint (raw - zo)) / valof cf\<bar>
           \<le> \<bar>of_int (sint (raw - zo)) / valof cf\<bar> / 2 ^ 22"
proof -
  define dd where "dd = float_of_int32 (raw - zo)"
  define g where "g = fdiv dd cf"
  define D where "D = sint (raw - zo)"
  define p where "p = (of_int \<bar>D\<bar> :: rat)"
  define Dm where "Dm = fmag dd"
  define C where "C = fmag cf"
  from d have nz: "raw - zo \<noteq> 0" by simp
  note dn = float_of_int32_normal [OF nz, folded dd_def]
  from nz have "D \<noteq> 0" by (simp add: D_def signed_eq_0_iff)
  then have ppos: "0 < p" by (simp add: p_def)
  from dn(5,6) have Dm: "1 / 2 \<le> Dm" "Dm \<le> 2 ^ 32" by (simp_all add: Dm_def)
  from dn(7) have perr: "\<bar>Dm - p\<bar> \<le> p / 2 ^ 24" by (simp add: Dm_def p_def D_def)
  from c(2,3) have C: "1 / 2 ^ 90 \<le> C" "C \<le> 2 ^ 90" by (simp_all add: abs_valof C_def)
  from C(1) have Cpos: "0 < C" by (rule less_le_trans [rotated]) simp
  from Dm(1) have Dpos: "0 < Dm" by (rule less_le_trans [rotated]) simp
  have cinf: "\<not> is_inf cf"
  proof (rule fmag_below_inf)
    have "(2::rat) ^ 90 < 2 ^ 128" by simp
    with C(2) show "fmag cf < 2 ^ 128" unfolding C_def by (rule le_less_trans)
  qed
  have csig: "significand cf \<noteq> 0"
    using c(1) cinf Cpos unfolding C_def by (rule fmag_pos_significand)
  have lo: "2 powi (- 126) \<le> Dm / C"
  proof -
    have "1 / 2 / 2 ^ 90 \<le> Dm / C" using Dm(1) Cpos C(2) by (intro frac_le) simp_all
    with range_consts(3) show ?thesis by (rule order_trans)
  qed
  have hi: "Dm / C < 2 powi 127"
  proof -
    have "Dm / C \<le> 2 ^ 32 / (1 / 2 ^ 90)" using Dm(2) Dpos C(1) by (intro frac_le) simp_all
    then show ?thesis using range_consts(4) by (rule le_less_trans)
  qed
  note gn = fdiv_normal [OF dn(1,2,4) c(1) cinf csig lo [unfolded Dm_def C_def]
      hi [unfolded Dm_def C_def], folded g_def]
  from gn(5) have gerr: "\<bar>fmag g - Dm / C\<bar> \<le> Dm / C / 2 ^ 24"
    by (simp only: Dm_def C_def)
  have "\<bar>Dm / C - p / C\<bar> = \<bar>Dm - p\<bar> / C"
    using Cpos by (simp add: diff_divide_distrib [symmetric])
  also have "\<dots> \<le> p / 2 ^ 24 / C" using perr Cpos by (simp only: divide_right_mono less_imp_le)
  finally have rerr: "\<bar>Dm / C - p / C\<bar> \<le> p / C / 2 ^ 24" by (simp add: field_simps)
  from ppos Cpos have tpos: "0 < p / C" by simp
  from tpos rerr gerr have main: "\<bar>fmag g - p / C\<bar> \<le> p / C / 2 ^ 22"
    by (rule double_rounding)
  have tw: "trueWeight zo cf raw = g" by (simp add: trueWeight_def g_def dd_def)
  show "\<not> is_nan (trueWeight zo cf raw)" unfolding tw by (rule gn(1))
  define neg where "neg \<longleftrightarrow> (D < 0) \<noteq> fsign cf"
  define t where "t = p / C"
  have sg: "fsign g = neg" using gn(3) dn(3) by (simp add: D_def neg_def)
  have vg: "valof g = (if neg then - fmag g else fmag g)"
    by (simp add: valof_def sg)
  have vq: "of_int D / valof cf = (if neg then - t else t)"
    using Cpos by (auto simp: valof_def C_def p_def neg_def t_def)
  from tpos have "0 < t" by (simp only: t_def)
  then have at: "\<bar>t\<bar> = t" by simp
  have "\<bar>valof g - of_int D / valof cf\<bar> = \<bar>fmag g - t\<bar>"
    unfolding vg vq by (cases neg) simp_all
  moreover have "\<bar>of_int D / valof cf\<bar> = t"
    unfolding vq using at by (cases neg) simp_all
  ultimately show "\<bar>valof (trueWeight zo cf raw) - of_int (sint (raw - zo)) / valof cf\<bar>
           \<le> \<bar>of_int (sint (raw - zo)) / valof cf\<bar> / 2 ^ 22"
    unfolding tw using main by (simp add: D_def t_def)
qed

text \<open>
  Claim C4, as the code has it. The weight of a raw sample is the quotient of the
  integer difference \<open>raw - zeroOffset\<close>, converted to \<^verbatim>\<open>float\<close>, by the scale factor.
  Whenever the scale factor is neither a NaN nor equal to zero, the weight of the raw
  sample \<open>zeroOffset\<close> compares equal to zero (it is \<open>+0.0\<close> or \<open>-0.0\<close>).
  For any other raw sample and a scale factor of magnitude between \<open>2 ^ -90\<close> and
  \<open>2 ^ 90\<close>, the weight is the exact quotient up to a relative error of \<open>2 ^ -22\<close>.
\<close>

theorem trueWeight_at_zeroOffset:
  "trueWeight zo cf raw = fdiv (float_of_int32 (raw - zo)) cf
   \<and> (\<not> is_nan cf \<and> \<not> feq cf fzero \<longrightarrow> feq (trueWeight zo cf zo) fzero)
   \<and> (raw \<noteq> zo \<and> \<not> is_nan cf \<and> 1 / 2 ^ 90 \<le> \<bar>valof cf\<bar> \<and> \<bar>valof cf\<bar> \<le> 2 ^ 90 \<longrightarrow>
       \<bar>valof (trueWeight zo cf raw) - of_int (sint (raw - zo)) / valof cf\<bar>
         \<le> \<bar>of_int (sint (raw - zo)) / valof cf\<bar> / 2 ^ 22)"
proof -
  have "feq (trueWeight zo cf zo) fzero" if "\<not> is_nan cf" "\<not> feq cf fzero"
  proof -
    from that have "valof cf \<noteq> 0" by (simp add: feq_def fzero_facts)
    with that(1) have "trueWeight zo cf zo = mk_float (fsign cf) 0 0"
      by (simp add: trueWeight_def float_of_int32_0 fdiv_zero_numerator)
    then show ?thesis by (simp add: feq_def signed_zero_facts fzero_facts)
  qed
  moreover have "\<bar>valof (trueWeight zo cf raw) - of_int (sint (raw - zo)) / valof cf\<bar>
         \<le> \<bar>of_int (sint (raw - zo)) / valof cf\<bar> / 2 ^ 22"
    if "raw \<noteq> zo" "\<not> is_nan cf" "1 / 2 ^ 90 \<le> \<bar>valof cf\<bar>" "\<bar>valof cf\<bar> \<le> 2 ^ 90"
    using that by (rule trueWeight_accuracy(2))
  moreover have "trueWeight zo cf raw = fdiv (float_of_int32 (raw - zo)) cf"
    by (simp add: trueWeight_def)
  ultimately show ?thesis by blast
qed

lemma tea_factor_in_range:
  "\<not> is_nan 0x448EA5E5" "\<not> feq 0x448EA5E5 fzero"
  "1 / 2 ^ 90 \<le> \<bar>valof 0x448EA5E5\<bar>" "\<bar>valof 0x448EA5E5\<bar> \<le> 2 ^ 90"
  "valof 0x448EA5E5 = 9348581 / 8192"
  by (simp_all add: float_eval)

theorem trueWeight_at_zeroOffset_witness:
  "feq (trueWeight 25776 0x448EA5E5 25776) fzero
   \<and> \<bar>valof (trueWeight 25776 0x448EA5E5 57683) - 31907 / (9348581 / 8192)\<bar>
       \<le> \<bar>31907 / (9348581 / 8192)\<bar> / 2 ^ 22"
proof -
  have h: "(57683 :: 32 word) \<noteq> 25776" by simp
  have d: "sint (57683 - 25776 :: 32 word) = 31907" by simp
  from trueWeight_at_zeroOffset [of 25776 "0x448EA5E5" 57683] tea_factor_in_range(1-4) h
  have "feq (trueWeight 25776 0x448EA5E5 25776) fzero"
    and "\<bar>valof (trueWeight 25776 0x448EA5E5 57683)
           - of_int (sint (57683 - 25776 :: 32 word)) / valof 0x448EA5E5\<bar>
         \<le> \<bar>of_int (sint (57683 - 25776 :: 32 word)) / valof 0x448EA5E5\<bar> / 2 ^ 22"
    by blast+
  then show ?thesis unfolding d tea_factor_in_range(5) by simp
qed

text \<open>
  The claim as stated fails for a scale factor that is a NaN, such as the erased pattern
  \<open>0xFFFFFFFF\<close>: it differs from zero (\<^verbatim>\<open>!=\<close> holds), yet the weight at the zero
  offset is a NaN, which does not compare equal to zero.
\<close>

theorem trueWeight_nan_factor:
  "\<not> feq 0xFFFFFFFF fzero \<and> \<not> feq (trueWeight 1000 0xFFFFFFFF 1000) fzero
   \<and> is_nan (trueWeight 1000 0xFFFFFFFF 1000)"
  by (simp add: trueWeight_def float_eval)

section \<open>The timed measurement\<close>

lemma maxWeightLoop_ge:
  "fge mx c \<Longrightarrow> fge (maxWeightLoop zo cf ms mx) c"
proof (induction ms arbitrary: mx)
  case Nil
  then show ?case by simp
next
  case (Cons m ms)
  show ?case
  proof (cases "fgt (trueWeight zo cf m) mx")
    case True
    from True Cons.prems have "fge (trueWeight zo cf m) c" by (rule fgt_fge)
    then have "fge (maxWeightLoop zo cf ms (trueWeight zo cf m)) c" by (rule Cons.IH)
    with True show ?thesis by simp
  next
    case False
    with Cons.IH [OF Cons.prems] show ?thesis by simp
  qed
qed

lemma maxWeightLoop_cases:
  "maxWeightLoop zo cf ms mx = mx
   \<or> (\<exists>m \<in> set ms. maxWeightLoop zo cf ms mx = trueWeight zo cf m
                      \<and> fgt (maxWeightLoop zo cf ms mx) mx)"
proof (induction ms arbitrary: mx)
  case Nil
  then show ?case by simp
next
  case (Cons m ms)
  let ?w = "trueWeight zo cf m"
  show ?case
  proof (cases "fgt ?w mx")
    case True
    from Cons.IH [of ?w] show ?thesis
    proof
      assume "maxWeightLoop zo cf ms ?w = ?w"
      with True show ?thesis by simp
    next
      assume "\<exists>m' \<in> set ms. maxWeightLoop zo cf ms ?w = trueWeight zo cf m'
                \<and> fgt (maxWeightLoop zo cf ms ?w) ?w"
      then obtain m' where "m' \<in> set ms" "maxWeightLoop zo cf ms ?w = trueWeight zo cf m'"
        "fgt (maxWeightLoop zo cf ms ?w) ?w" by blast
      with True show ?thesis by (auto intro: fgt_trans)
    qed
  next
    case False
    with Cons.IH [of mx] show ?thesis by auto
  qed
qed

lemma maxWeightLoop_all_negative:
  "\<forall>m \<in> set ms. flt (trueWeight zo cf m) fzero \<Longrightarrow> fge mx fzero \<Longrightarrow>
   maxWeightLoop zo cf ms mx = mx"
proof (induction ms arbitrary: mx)
  case Nil
  then show ?case by simp
next
  case (Cons m ms)
  from Cons.prems(1) have "flt (trueWeight zo cf m) fzero" by simp
  from this Cons.prems(2) have "\<not> fgt (trueWeight zo cf m) mx" by (rule flt_not_fgt)
  with Cons show ?case by simp
qed

text \<open>
  Claim C10. The maximum that \<^verbatim>\<open>timedMeasure\<close> reports starts at \<open>0.0\<close> and is replaced
  only by a weight that is strictly greater. So it is always \<open>\<ge> 0\<close>; it is either
  \<open>0.0\<close> still or one of the session's weights, strictly positive; and when every
  weight of the session is negative it is \<open>0.0\<close>, not the largest weight.
\<close>

theorem timedMeasure_maxWeight_nonnegative:
  "fge (timedMeasure_maxWeight ev s) fzero
   \<and> (timedMeasure_maxWeight ev s = fzero
      \<or> (\<exists>j < numMeasurements.
            timedMeasure_maxWeight ev s =
              trueWeight (zeroOffset (myScale s)) (calibrationFactor (myScale s)) (readings ev j)
            \<and> fgt (timedMeasure_maxWeight ev s) fzero))
   \<and> ((\<forall>j < numMeasurements.
          flt (trueWeight (zeroOffset (myScale s)) (calibrationFactor (myScale s)) (readings ev j))
            fzero)
        \<longrightarrow> timedMeasure_maxWeight ev s = fzero)"
proof -
  let ?zo = "zeroOffset (myScale s)" and ?cf = "calibrationFactor (myScale s)"
  let ?ms = "map (readings ev) [0..<numMeasurements]"
  have r: "timedMeasure_maxWeight ev s = maxWeightLoop ?zo ?cf ?ms fzero"
    by (simp add: timedMeasure_maxWeight_def driver_eval)
  have 1: "fge (timedMeasure_maxWeight ev s) fzero"
    unfolding r by (rule maxWeightLoop_ge) (rule fge_fzero_refl)
  have 2: "timedMeasure_maxWeight ev s = fzero
      \<or> (\<exists>j < numMeasurements.
            timedMeasure_maxWeight ev s = trueWeight ?zo ?cf (readings ev j)
            \<and> fgt (timedMeasure_maxWeight ev s) fzero)"
    using maxWeightLoop_cases [of ?zo ?cf ?ms fzero] unfolding r by auto
  have 3: "timedMeasure_maxWeight ev s = fzero"
    if "\<forall>j < numMeasurements. flt (trueWeight ?zo ?cf (readings ev j)) fzero"
    unfolding r using that by (intro maxWeightLoop_all_negative fge_fzero_refl) auto
  from 1 2 3 show ?thesis by blast
qed

lemma weight_minus5: "flt (trueWeight 10 0x3F800000 5) fzero"
  by (simp add: trueWeight_def float_eval)

theorem timedMeasure_maxWeight_nonnegative_witness:
  "timedMeasure_maxWeight
     \<lparr>readings = (\<lambda>k. 5), tareAverage = 0, calAverage = 0, parsedWeight = 0, keyPresses = 1\<rparr>
     (power_on \<lparr>zeroOffset = 10, calibrationFactor = 0x3F800000\<rparr> erased) = fzero
   \<and> flt (trueWeight 10 0x3F800000 5) fzero"
  using timedMeasure_maxWeight_nonnegative
          [of "\<lparr>readings = (\<lambda>k. 5), tareAverage = 0, calAverage = 0, parsedWeight = 0,
                keyPresses = 1\<rparr>"
              "power_on \<lparr>zeroOffset = 10, calibrationFactor = 0x3F800000\<rparr> erased"]
  by (simp add: power_on_def weight_minus5)

section \<open>The settings in the EEPROM\<close>

lemma word_of_bytes_of:
  "word_of_bytes (ucast w) (ucast (drop_bit 8 w)) (ucast (drop_bit 16 w)) (ucast (drop_bit 24 w)) = w"
proof (rule bit_word_eqI)
  fix n :: nat
  assume "n < LENGTH(32)"
  then consider "n < 8" | "8 \<le> n" "n < 16" | "16 \<le> n" "n < 24" | "24 \<le> n" "n < 32"
    by fastforce
  then show "bit (word_of_bytes (ucast w) (ucast (drop_bit 8 w)) (ucast (drop_bit 16 w))
                   (ucast (drop_bit 24 w))) n = bit w n"
    by cases (auto simp: word_of_bytes_def bit_simps)
qed

lemma EEPROM_get_put_same: "EEPROM_get a (EEPROM_put a w mem) = w"
  by (simp add: EEPROM_get_def EEPROM_put_def word_of_bytes_of)

lemma EEPROM_get_put_other:
  "a + 4 \<le> b \<or> b + 4 \<le> a \<Longrightarrow> EEPROM_get a (EEPROM_put b w mem) = EEPROM_get a mem"
  by (auto simp: EEPROM_get_def EEPROM_put_def)

lemma record_then_get:
  "EEPROM_get LOCATION_CALIBRATION_FACTOR (EEPROM (recordSystemSettings s)) = calibrationFactor (myScale s)"
  "EEPROM_get LOCATION_ZERO_OFFSET (EEPROM (recordSystemSettings s)) = zeroOffset (myScale s)"
  by (simp_all add: recordSystemSettings_def Let_def driver_eval EEPROM_get_put_same EEPROM_get_put_other
        LOCATION_CALIBRATION_FACTOR_def LOCATION_ZERO_OFFSET_def)

lemma erased_reads_ones: "EEPROM_get a erased = 0xFFFFFFFF"
  by (simp add: eeprom_eval)

lemma float_of_ones: "float_of_uint32 0xFFFFFFFF = 0x4F800000"
  by (simp add: float_eval)

lemma ones_not_equal: "\<not> feq 0xFFFFFFFF 0x4F800000"
  by (simp add: float_eval)

lemma ones_is_nan: "is_nan 0xFFFFFFFF"
  by (simp add: float_eval)

text \<open>
  Claim C2, evaluated on the code. With an erased EEPROM, \<^verbatim>\<open>readSystemSettings\<close>
  gives the zero offset its default 1000, writes it back and clears
  \<^verbatim>\<open>settingsDetected\<close>. The scale factor, however, is not reset to 0: the float read
  from the erased bytes is a NaN, the test \<^verbatim>\<open>== 0xFFFFFFFF\<close> compares it as a number
  with \<open>4294967296.0\<close> and fails, so the driver receives the NaN and the EEPROM keeps
  the erased bytes at the factor's location.
\<close>

theorem readSystemSettings_erased:
  "calibrationFactor (myScale (readSystemSettings (s\<lparr>EEPROM := erased\<rparr>))) = 0xFFFFFFFF
   \<and> is_nan (calibrationFactor (myScale (readSystemSettings (s\<lparr>EEPROM := erased\<rparr>))))
   \<and> calibrationFactor (myScale (readSystemSettings (s\<lparr>EEPROM := erased\<rparr>))) \<noteq> fzero
   \<and> EEPROM_get LOCATION_CALIBRATION_FACTOR
        (EEPROM (readSystemSettings (s\<lparr>EEPROM := erased\<rparr>))) = 0xFFFFFFFF
   \<and> zeroOffset (myScale (readSystemSettings (s\<lparr>EEPROM := erased\<rparr>))) = 1000
   \<and> EEPROM_get LOCATION_ZERO_OFFSET
        (EEPROM (readSystemSettings (s\<lparr>EEPROM := erased\<rparr>))) = 1000
   \<and> \<not> settingsDetected (readSystemSettings (s\<lparr>EEPROM := erased\<rparr>))"
proof -
  let ?s' = "readSystemSettings (s\<lparr>EEPROM := erased\<rparr>)"
  have cf: "calibrationFactor (myScale ?s') = 0xFFFFFFFF"
    by (simp add: readSystemSettings_def Let_def erased_reads_ones float_of_ones
          ones_not_equal driver_eval)
  have mem: "EEPROM ?s' = EEPROM_put LOCATION_ZERO_OFFSET 1000 erased"
    by (simp add: readSystemSettings_def Let_def erased_reads_ones float_of_ones
          ones_not_equal)
  have zo: "zeroOffset (myScale ?s') = 1000"
    by (simp add: readSystemSettings_def Let_def erased_reads_ones float_of_ones
          ones_not_equal driver_eval)
  have flag: "\<not> settingsDetected ?s'"
    by (simp add: readSystemSettings_def Let_def erased_reads_ones float_of_ones
          ones_not_equal)
  have "EEPROM_get LOCATION_CALIBRATION_FACTOR (EEPROM ?s') = 0xFFFFFFFF"
    unfolding mem
    by (simp add: EEPROM_get_put_other erased_reads_ones LOCATION_CALIBRATION_FACTOR_def
          LOCATION_ZERO_OFFSET_def)
  moreover have "EEPROM_get LOCATION_ZERO_OFFSET (EEPROM ?s') = 1000"
    unfolding mem by (simp add: EEPROM_get_put_same)
  ultimately show ?thesis
    using cf zo flag by (simp add: ones_is_nan fzero_def)
qed






section \<open>The guided calibration\<close>

lemma calibrateScale_result:
  "3 \<le> keyPresses ev \<Longrightarrow>
   calibrateScale ev s =
     Some (recordSystemSettings
       (s\<lparr>myScale := (myScale s)\<lparr>zeroOffset := tareAverage ev,
            calibrationFactor :=
              fdiv (float_of_int32 (calAverage ev - tareAverage ev)) (parsedWeight ev)\<rparr>\<rparr>))"
  by (simp add: calibrateScale_def Let_def driver_eval)

text \<open>
  Claim C3, as the code has it. \<^verbatim>\<open>calibrateScale\<close> does not check the weight the
  operator enters. Once the three prompts are answered it returns normally for every
  parsed value, positive or not: the zero offset is the tare average, the scale factor
  is the quotient of \<open>calAverage - zeroOffset\<close> by the entered weight, and both have
  been written to the EEPROM.
\<close>

theorem calibrateScale_no_validation:
  "3 \<le> keyPresses ev \<Longrightarrow>
   map_option myScale (calibrateScale ev s) =
     Some ((myScale s)\<lparr>zeroOffset := tareAverage ev,
            calibrationFactor :=
              fdiv (float_of_int32 (calAverage ev - tareAverage ev)) (parsedWeight ev)\<rparr>)
   \<and> map_option (EEPROM_get LOCATION_ZERO_OFFSET \<circ> EEPROM) (calibrateScale ev s) =
       Some (tareAverage ev)
   \<and> map_option (EEPROM_get LOCATION_CALIBRATION_FACTOR \<circ> EEPROM) (calibrateScale ev s) =
       Some (fdiv (float_of_int32 (calAverage ev - tareAverage ev)) (parsedWeight ev))"
  by (simp add: calibrateScale_result record_then_get) (simp add: recordSystemSettings_def Let_def)

theorem calibrateScale_no_validation_witness:
  "3 \<le> keyPresses \<lparr>readings = (\<lambda>k. 0), tareAverage = 100, calAverage = 116,
                      parsedWeight = 0x80000000, keyPresses = 3\<rparr>
   \<and> map_option (zeroOffset \<circ> myScale)
       (calibrateScale \<lparr>readings = (\<lambda>k. 0), tareAverage = 100, calAverage = 116,
                        parsedWeight = 0x80000000, keyPresses = 3\<rparr>
          (power_on \<lparr>zeroOffset = 0, calibrationFactor = 0x3F800000\<rparr> erased))
     = Some 100"
  using calibrateScale_no_validation
          [of "\<lparr>readings = (\<lambda>k. 0), tareAverage = 100, calAverage = 116,
                parsedWeight = 0x80000000, keyPresses = 3\<rparr>"
              "power_on \<lparr>zeroOffset = 0, calibrationFactor = 0x3F800000\<rparr> erased"]
  by (simp add: option.map_comp [symmetric] del: map_option_eq_Some)

text \<open>
  With the entered weight \<open>-2.0\<close> the function does not fail: it replaces both
  parameters (the factor becomes \<open>-8.0\<close>).
\<close>

lemma div_minus2: "fdiv (float_of_int32 16) 0xC0000000 = 0xC1000000"
  by (simp add: float_eval)

lemma minus2_negative: "flt 0xC0000000 fzero"
  by (simp add: float_eval)

theorem calibrateScale_negative_weight:
  "flt (parsedWeight \<lparr>readings = (\<lambda>k. 0), tareAverage = 100, calAverage = 116,
                       parsedWeight = 0xC0000000, keyPresses = 3\<rparr>) fzero
   \<and> map_option myScale
       (calibrateScale \<lparr>readings = (\<lambda>k. 0), tareAverage = 100, calAverage = 116,
                        parsedWeight = 0xC0000000, keyPresses = 3\<rparr>
          (power_on \<lparr>zeroOffset = 0, calibrationFactor = 0x3F800000\<rparr> erased))
     = Some \<lparr>zeroOffset = 100, calibrationFactor = 0xC1000000\<rparr>"
  by (simp add: calibrateScale_def Let_def driver_eval recordSystemSettings_def power_on_def
        div_minus2 minus2_negative)

subsection \<open>The scale factor\<close>

lemma nearest_15_2: "float_round False 152 10 = 0x41733333"
  by (simp add: float_eval)

lemma tea_factor: "fdiv (float_of_int32 17346) 0x41733333 = 0x448EA5E5"
  by (simp add: float_eval)

lemma tea_weight: "fdiv (float_of_int32 31907) 0x448EA5E5 = 0x41DFAD2A"
  by (simp add: float_eval)

lemma tea_back: "fdiv (float_of_int32 17346) 0x448EA5E5 = 0x41733333"
  by (simp add: float_eval)

lemma tea_values:
  "valof 0x448EA5E5 = 9348581 / 8192" "valof 0x41DFAD2A = 7329429 / 262144"
  "valof 0x41733333 = 15938355 / 1048576"
  by (simp_all add: float_eval)

text \<open>
  Claim C5, as the code has it. \<^verbatim>\<open>calibrateScale\<close> leaves the scale factor
  \<open>(calAverage - zeroOffset) / weight\<close>, the zero offset being the tare average just
  taken, whatever the averages and the weight are. In the scenario of the sketch's header (tare average 25776, known weight 15.2,
  that is the float \<open>0x41733333\<close>, calibration average 43122) the factor is the float
  \<open>0x448EA5E5\<close>, within 0.05 of 1141.2; with it the raw sample 57683 weighs 27.96 to
  within 0.005, and the calibration average itself weighs 15.2 to within a millionth.
  The calibration average does not weigh the entered weight in every case: it does, up
  to a relative error of \<open>2 ^ -22\<close>, when the two averages differ and the entered
  weight is not a NaN and has a magnitude between \<open>2 ^ -90\<close> and \<open>2 ^ 90\<close>.
\<close>

theorem calibrateScale_scale_factor:
  "(3 \<le> keyPresses ev \<longrightarrow>
      map_option (calibrationFactor \<circ> myScale) (calibrateScale ev s) =
        Some (fdiv (float_of_int32 (calAverage ev - tareAverage ev)) (parsedWeight ev)))
   \<and> float_round False 152 10 = 0x41733333
   \<and> map_option myScale
        (calibrateScale \<lparr>readings = r, tareAverage = 25776, calAverage = 43122,
                         parsedWeight = 0x41733333, keyPresses = 3\<rparr> s) =
        Some ((myScale s)\<lparr>zeroOffset := 25776, calibrationFactor := 0x448EA5E5\<rparr>)
   \<and> \<bar>valof 0x448EA5E5 - 11412 / 10\<bar> < 5 / 100
   \<and> \<bar>valof (trueWeight 25776 0x448EA5E5 57683) - 2796 / 100\<bar> < 5 / 1000
   \<and> \<bar>valof (trueWeight 25776 0x448EA5E5 43122) - 152 / 10\<bar> < 1 / 1000000
   \<and> (calAverage ev \<noteq> tareAverage ev \<and> \<not> is_nan (parsedWeight ev)
        \<and> 1 / 2 ^ 90 \<le> \<bar>valof (parsedWeight ev)\<bar> \<and> \<bar>valof (parsedWeight ev)\<bar> \<le> 2 ^ 90 \<longrightarrow>
       \<bar>valof (trueWeight (tareAverage ev)
                 (fdiv (float_of_int32 (calAverage ev - tareAverage ev)) (parsedWeight ev))
                 (calAverage ev))
          - valof (parsedWeight ev)\<bar> \<le> \<bar>valof (parsedWeight ev)\<bar> / 2 ^ 22)"
proof -
  have 1: "map_option (calibrationFactor \<circ> myScale) (calibrateScale ev s) =
        Some (fdiv (float_of_int32 (calAverage ev - tareAverage ev)) (parsedWeight ev))"
    if "3 \<le> keyPresses ev"
    using that by (simp add: calibrateScale_result recordSystemSettings_def Let_def)
  have 2: "map_option myScale
        (calibrateScale \<lparr>readings = r, tareAverage = 25776, calAverage = 43122,
                         parsedWeight = 0x41733333, keyPresses = 3\<rparr> s) =
        Some ((myScale s)\<lparr>zeroOffset := 25776, calibrationFactor := 0x448EA5E5\<rparr>)"
    by (simp add: calibrateScale_result recordSystemSettings_def Let_def tea_factor)
  have 3: "\<bar>valof 0x448EA5E5 - 11412 / 10\<bar> < 5 / 100"
    by (simp add: tea_values)
  have 4: "\<bar>valof (trueWeight 25776 0x448EA5E5 57683) - 2796 / 100\<bar> < 5 / 1000"
    by (simp add: trueWeight_def tea_weight tea_values)
  have 5: "\<bar>valof (trueWeight 25776 0x448EA5E5 43122) - 152 / 10\<bar> < 1 / 1000000"
    by (simp add: trueWeight_def tea_back tea_values)
  have 6: "\<bar>valof (trueWeight (tareAverage ev)
                 (fdiv (float_of_int32 (calAverage ev - tareAverage ev)) (parsedWeight ev))
                 (calAverage ev))
          - valof (parsedWeight ev)\<bar> \<le> \<bar>valof (parsedWeight ev)\<bar> / 2 ^ 22"
    if "calAverage ev \<noteq> tareAverage ev" "\<not> is_nan (parsedWeight ev)"
      "1 / 2 ^ 90 \<le> \<bar>valof (parsedWeight ev)\<bar>" "\<bar>valof (parsedWeight ev)\<bar> \<le> 2 ^ 90"
    using that by (rule calibration_recovers_weight(2))
  from 1 2 3 4 5 6 nearest_15_2 show ?thesis by blast
qed

lemma tea_weight_in_range:
  "\<not> is_nan 0x41733333" "1 / 2 ^ 90 \<le> \<bar>valof 0x41733333\<bar>" "\<bar>valof 0x41733333\<bar> \<le> 2 ^ 90"
  by (simp_all add: float_eval)

theorem calibrateScale_scale_factor_witness:
  "map_option (calibrationFactor \<circ> myScale)
     (calibrateScale \<lparr>readings = (\<lambda>k. 0), tareAverage = 25776, calAverage = 43122,
                      parsedWeight = 0x41733333, keyPresses = 3\<rparr>
        (power_on \<lparr>zeroOffset = 0, calibrationFactor = 0x3F800000\<rparr> erased))
   = Some 0x448EA5E5
   \<and> \<bar>valof (trueWeight 25776 0x448EA5E5 43122) - valof 0x41733333\<bar>
       \<le> \<bar>valof 0x41733333\<bar> / 2 ^ 22"
proof -
  let ?ev = "\<lparr>readings = (\<lambda>k. 0), tareAverage = 25776, calAverage = 43122,
                      parsedWeight = 0x41733333, keyPresses = 3\<rparr>"
  let ?s = "power_on \<lparr>zeroOffset = 0, calibrationFactor = 0x3F800000\<rparr> erased"
  have h: "3 \<le> keyPresses ?ev" by simp
  have k: "calAverage ?ev \<noteq> tareAverage ?ev \<and> \<not> is_nan (parsedWeight ?ev)
        \<and> 1 / 2 ^ 90 \<le> \<bar>valof (parsedWeight ?ev)\<bar> \<and> \<bar>valof (parsedWeight ?ev)\<bar> \<le> 2 ^ 90"
    using tea_weight_in_range by simp
  from calibrateScale_scale_factor [of ?ev ?s] h k
  have "map_option (calibrationFactor \<circ> myScale) (calibrateScale ?ev ?s)
        = Some (fdiv (float_of_int32 (calAverage ?ev - tareAverage ?ev)) (parsedWeight ?ev))"
    and "\<bar>valof (trueWeight (tareAverage ?ev)
                 (fdiv (float_of_int32 (calAverage ?ev - tareAverage ?ev)) (parsedWeight ?ev))
                 (calAverage ?ev))
          - valof (parsedWeight ?ev)\<bar> \<le> \<bar>valof (parsedWeight ?ev)\<bar> / 2 ^ 22"
    by blast+
  then show ?thesis by (simp add: tea_factor)
qed

text \<open>
  When the calibration average is the tare average (nothing was put on the scale, or the
  load cell did not respond to it), the factor stored for the weight 15.2 is \<open>0.0\<close>,
  and the calibration average then weighs \<open>0.0 / 0.0\<close>, a NaN, not 15.2: nothing in
  \<^verbatim>\<open>calibrateScale\<close> compares the two averages.
\<close>

lemma same_average_factor: "fdiv (float_of_int32 0) 0x41733333 = 0"
  by (simp add: float_eval)

lemma same_average_weight: "is_nan (fdiv (float_of_int32 0) 0)"
  by (simp add: float_eval)

theorem calibrateScale_equal_averages:
  "map_option myScale
     (calibrateScale \<lparr>readings = (\<lambda>k. 0), tareAverage = 25776, calAverage = 25776,
                      parsedWeight = 0x41733333, keyPresses = 3\<rparr>
        (power_on \<lparr>zeroOffset = 0, calibrationFactor = 0x3F800000\<rparr> erased))
     = Some \<lparr>zeroOffset = 25776, calibrationFactor = 0\<rparr>
   \<and> is_nan (trueWeight 25776 0 25776)
   \<and> \<not> is_nan 0x41733333"
  by (simp add: calibrateScale_def Let_def driver_eval recordSystemSettings_def power_on_def
        trueWeight_def same_average_factor same_average_weight tea_weight_in_range)

text \<open>
  The magnitude of the weight matters too. With the largest float (\<open>0x7F7FFFFF\<close>,
  about \<open>3.4e38\<close>) entered and averages that differ by one, the factor is rounded to
  the subnormal \<open>2 ^ -128\<close>, and the calibration average weighs infinity.
\<close>

lemma largest_weight_factor: "fdiv (float_of_int32 1) 0x7F7FFFFF = 0x00200000"
  by (simp add: float_eval)

lemma largest_weight_back: "trueWeight 0 0x00200000 1 = 0x7F800000"
  by (simp add: trueWeight_def float_eval)

section \<open>The dispatcher\<close>

lemma loop_disconnected:
  "\<not> deviceConnected s \<Longrightarrow>
   loop ev s = Some (if oldDeviceConnected s
                     then s\<lparr>advertisingStarts := advertisingStarts s + 1,
                            oldDeviceConnected := False\<rparr>
                     else s)"
  by (simp add: loop_def Let_def)

text \<open>
  Claim C7. A call of \<^verbatim>\<open>loop\<close> made while \<^verbatim>\<open>deviceConnected\<close> is false returns, and
  leaves the driver's parameters, the EEPROM, \<^verbatim>\<open>settingsDetected\<close> and the pending
  command as they were, whatever the command byte is.
\<close>

theorem loop_disconnected_no_effect:
  "\<not> deviceConnected s \<Longrightarrow>
   map_option myScale (loop ev s) = Some (myScale s)
   \<and> map_option EEPROM (loop ev s) = Some (EEPROM s)
   \<and> map_option settingsDetected (loop ev s) = Some (settingsDetected s)
   \<and> map_option command (loop ev s) = Some (command s)"
  by (simp add: loop_disconnected)

theorem loop_disconnected_no_effect_witness:
  "\<not> deviceConnected
       ((power_on \<lparr>zeroOffset = 25776, calibrationFactor = 0x448EA5E5\<rparr> erased)
          \<lparr>command := ino_TARE\<rparr>)
   \<and> map_option myScale
       (loop \<lparr>readings = (\<lambda>k. 0), tareAverage = 100, calAverage = 116,
               parsedWeight = 0x40000000, keyPresses = 3\<rparr>
          ((power_on \<lparr>zeroOffset = 25776, calibrationFactor = 0x448EA5E5\<rparr> erased)
             \<lparr>command := ino_TARE\<rparr>))
     = Some \<lparr>zeroOffset = 25776, calibrationFactor = 0x448EA5E5\<rparr>"
proof -
  let ?s = "(power_on \<lparr>zeroOffset = 25776, calibrationFactor = 0x448EA5E5\<rparr> erased)
              \<lparr>command := ino_TARE\<rparr>"
  have h: "\<not> deviceConnected ?s" by (simp add: power_on_def)
  from loop_disconnected_no_effect [OF h] h show ?thesis by (simp add: power_on_def)
qed

lemma calibrateScale_connection:
  "calibrateScale ev s = Some s1 \<Longrightarrow> deviceConnected s1 = deviceConnected s"
  by (auto simp: calibrateScale_def recordSystemSettings_def Let_def split: if_splits)

lemma loop_calibrate:
  "loop ev (s\<lparr>deviceConnected := True, command := ino_CALIBRATE\<rparr>) =
     map_option (\<lambda>s1. s1\<lparr>oldDeviceConnected := True\<rparr>)
       (calibrateScale ev (s\<lparr>deviceConnected := True, command := ino_CALIBRATE\<rparr>))"
proof (cases "calibrateScale ev (s\<lparr>deviceConnected := True, command := ino_CALIBRATE\<rparr>)")
  case None
  then show ?thesis
    by (simp add: loop_def dispatch_def ino_NOTHING_def ino_TARE_def ino_CALIBRATE_def)
next
  case (Some s1)
  then have c: "deviceConnected s1" by (simp add: calibrateScale_connection)
  have "(if oldDeviceConnected s1 then s1 else s1\<lparr>oldDeviceConnected := True\<rparr>)
          = s1\<lparr>oldDeviceConnected := True\<rparr>"
    by simp
  with Some c show ?thesis
    by (simp add: loop_def dispatch_def Let_def ino_NOTHING_def ino_TARE_def ino_CALIBRATE_def)
qed

text \<open>
  Claim C9. The decoder's enumeration numbers TARE, CALIBRATE and TIMED_MEASURE 2, 3
  and 4 (ACKNOWLEDGE is 1), one more than the bytes 1, 2 and 3 that the sketch's
  \<^verbatim>\<open>switch\<close> takes for them. The numeric value of \<open>stringToCommand ''tare''\<close> is the
  byte of CALIBRATE: the \<^verbatim>\<open>switch\<close> runs \<^verbatim>\<open>calibrateScale\<close> on it, and so does a call
  of \<^verbatim>\<open>loop\<close> made while connected.
\<close>

theorem command_values_disagree:
  "Commands_value ACKNOWLEDGE = 1
   \<and> stringToCommand ''tare'' = Inr TARE
   \<and> Commands_value TARE = 2 \<and> unat ino_TARE = 1
   \<and> stringToCommand ''calibrate'' = Inr CALIBRATE
   \<and> Commands_value CALIBRATE = 3 \<and> unat ino_CALIBRATE = 2
   \<and> stringToCommand ''timed_measure'' = Inr TIMED_MEASURE
   \<and> Commands_value TIMED_MEASURE = 4 \<and> unat ino_TIMED_MEASURE = 3
   \<and> (of_nat (Commands_value TARE) :: 8 word) = ino_CALIBRATE
   \<and> dispatch (of_nat (Commands_value TARE)) ev s = calibrateScale ev s
   \<and> loop ev (s\<lparr>deviceConnected := True, command := of_nat (Commands_value TARE)\<rparr>) =
       map_option (\<lambda>s1. s1\<lparr>oldDeviceConnected := True\<rparr>)
         (calibrateScale ev
            (s\<lparr>deviceConnected := True, command := of_nat (Commands_value TARE)\<rparr>))"
proof -
  have v: "(of_nat (Commands_value TARE) :: 8 word) = ino_CALIBRATE"
    by (simp add: ino_CALIBRATE_def)
  have d: "dispatch (of_nat (Commands_value TARE)) ev s = calibrateScale ev s"
    by (simp add: ino_TARE_def ino_CALIBRATE_def ino_NOTHING_def dispatch_def)
  have l: "loop ev (s\<lparr>deviceConnected := True, command := of_nat (Commands_value TARE)\<rparr>) =
       map_option (\<lambda>s1. s1\<lparr>oldDeviceConnected := True\<rparr>)
         (calibrateScale ev
            (s\<lparr>deviceConnected := True, command := of_nat (Commands_value TARE)\<rparr>))"
    unfolding v by (rule loop_calibrate)
  have "stringToCommand ''tare'' = Inr TARE" "stringToCommand ''calibrate'' = Inr CALIBRATE"
    "stringToCommand ''timed_measure'' = Inr TIMED_MEASURE"
    by (simp_all add: stringToCommand_def stringToCommandMap_def)
  with v d l show ?thesis
    by (simp add: ino_TARE_def ino_CALIBRATE_def ino_TIMED_MEASURE_def)
qed

section \<open>The measurement characteristic\<close>

lemma length_bytes_of: "length (bytes_of w) = 4"
  by (simp add: bytes_of_def)

lemma length_memcpy4: "length (memcpy4 temp off w) = length temp"
  by (simp add: memcpy4_def)

lemma take_memcpy4: "take off (memcpy4 temp off w) = take off temp"
  by (simp add: memcpy4_def)

lemma drop_memcpy4: "off + 4 \<le> n \<Longrightarrow> drop n (memcpy4 temp off w) = drop n temp"
  by (simp add: memcpy4_def)

lemma mid_memcpy4:
  assumes "off + 4 \<le> length temp"
  shows "take 4 (drop off (memcpy4 temp off w)) = bytes_of w"
proof (rule nth_equalityI)
  show "length (take 4 (drop off (memcpy4 temp off w))) = length (bytes_of w)"
    using assms by (simp add: length_memcpy4 length_bytes_of)
next
  fix k
  assume "k < length (take 4 (drop off (memcpy4 temp off w)))"
  then have "k < 4" by simp
  then consider "k = 0" | "k = 1" | "k = 2" | "k = 3" by linarith
  then show "take 4 (drop off (memcpy4 temp off w)) ! k = bytes_of w ! k"
    using assms by cases (simp_all add: memcpy4_def bytes_of_def)
qed

lemma memcpy4_splice:
  assumes "off + 4 \<le> length temp"
  shows "memcpy4 temp off w = take off temp @ bytes_of w @ drop (off + 4) temp"
proof -
  let ?t = "memcpy4 temp off w"
  have "?t = take off ?t @ drop off ?t" by (rule append_take_drop_id [symmetric])
  also have "drop off ?t = take 4 (drop off ?t) @ drop 4 (drop off ?t)"
    by (rule append_take_drop_id [symmetric])
  also have "take 4 (drop off ?t) = bytes_of w" using assms by (rule mid_memcpy4)
  also have "drop 4 (drop off ?t) = drop (off + 4) temp"
    by (simp add: drop_memcpy4 add.commute)
  also have "take off ?t = take off temp" by (rule take_memcpy4)
  finally show ?thesis .
qed

lemma copyFloats_splice:
  "4 * (i + length xs) \<le> length temp \<Longrightarrow> 4 * (i + length xs) < 2 ^ 32 \<Longrightarrow>
   copyFloats nan xs i s temp =
     (foldl (fadd nan) s xs,
      take (4 * i) temp @ concat (map bytes_of xs) @ drop (4 * (i + length xs)) temp)"
proof (induction xs arbitrary: i s temp)
  case Nil
  then show ?case by simp
next
  case (Cons x xs)
  let ?t = "memcpy4 temp (4 * i) x"
  from Cons.prems(1) have off: "4 * i + 4 \<le> length temp" by simp
  from Cons.prems(2) have "4 * i < (2::nat) ^ 32" by simp
  then have small: "i * 4 mod 2 ^ 32 = 4 * i" by (simp add: mult.commute)
  have t: "?t = take (4 * i) temp @ bytes_of x @ drop (4 * i + 4) temp"
    using off by (rule memcpy4_splice)
  have step: "copyFloats nan (x # xs) i s temp = copyFloats nan xs (i + 1) (fadd nan s x) ?t"
    by (simp only: copyFloats.simps small)
  have p1: "4 * (i + 1 + length xs) \<le> length ?t"
    using Cons.prems(1) by (simp add: length_memcpy4)
  have p2: "4 * (i + 1 + length xs) < 2 ^ 32"
    using Cons.prems(2) by simp
  have a: "take (4 * (i + 1)) ?t = take (4 * i) temp @ bytes_of x"
    using off by (simp add: t length_bytes_of)
  have b: "drop (4 * (i + 1 + length xs)) ?t = drop (4 * (i + length (x # xs))) temp"
  proof -
    have "4 * i + 4 \<le> 4 * (i + 1 + length xs)" by simp
    then have "drop (4 * (i + 1 + length xs)) ?t = drop (4 * (i + 1 + length xs)) temp"
      by (rule drop_memcpy4)
    moreover have "4 * (i + 1 + length xs) = 4 * (i + length (x # xs))" by simp
    ultimately show ?thesis by (simp only:)
  qed
  have "copyFloats nan xs (i + 1) (fadd nan s x) ?t =
          (foldl (fadd nan) (fadd nan s x) xs,
           take (4 * (i + 1)) ?t @ concat (map bytes_of xs)
             @ drop (4 * (i + 1 + length xs)) ?t)"
    using p1 p2 by (rule Cons.IH)
  then show ?case unfolding step a b by simp
qed

lemma length_concat_bytes: "length (concat (map bytes_of xs)) = 4 * length xs"
  by (induction xs) (simp_all add: length_bytes_of)

lemma setFloatArrayValue_bytes:
  assumes "4 * (length data32 + 1) < 2 ^ 32"
  shows "setFloatArrayValue nan heap data32 =
           concat (map bytes_of data32) @ bytes_of (foldl (fadd nan) fzero data32)"
proof -
  let ?n = "length data32"
  let ?temp = "map heap [0..<4 * ?n + 4]"
  let ?sum = "foldl (fadd nan) fzero data32"
  let ?body = "concat (map bytes_of data32)"
  from assms have "4 * ?n < (2::nat) ^ 32" "4 * ?n + 4 < (2::nat) ^ 32" by simp_all
  then have m1: "4 * ?n mod 2 ^ 32 = 4 * ?n" and m2: "(4 * ?n + 4) mod 2 ^ 32 = 4 * ?n + 4"
    and m3: "?n * 4 mod 2 ^ 32 = 4 * ?n"
    by (simp_all add: mult.commute)
  have c: "copyFloats nan data32 0 fzero ?temp = (?sum, ?body @ drop (4 * ?n) ?temp)"
    using assms copyFloats_splice [of 0 data32 ?temp nan fzero] by simp
  have "4 * ?n + 4 \<le> length (?body @ drop (4 * ?n) ?temp)"
    by (simp add: length_concat_bytes)
  then have "memcpy4 (?body @ drop (4 * ?n) ?temp) (4 * ?n) ?sum =
               take (4 * ?n) (?body @ drop (4 * ?n) ?temp) @ bytes_of ?sum
                 @ drop (4 * ?n + 4) (?body @ drop (4 * ?n) ?temp)"
    by (rule memcpy4_splice)
  also have "\<dots> = ?body @ bytes_of ?sum"
    by (simp add: length_concat_bytes)
  finally have w: "memcpy4 (?body @ drop (4 * ?n) ?temp) (4 * ?n) ?sum = ?body @ bytes_of ?sum" .
  have "setFloatArrayValue nan heap data32 = take (4 * ?n + 4) (?body @ bytes_of ?sum)"
    by (simp only: setFloatArrayValue_def Let_def m1 m2 m3 c prod.case w)
  also have "\<dots> = ?body @ bytes_of ?sum"
    by (simp add: length_concat_bytes length_bytes_of)
  finally show ?thesis .
qed

subsection \<open>The checksum and the NaNs\<close>

lemma is_nan_qnan: "is_nan (qnan p)"
proof -
  have m: "0 \<le> 2 ^ 22 + fman p mod 2 ^ 22" "2 ^ 22 + fman p mod 2 ^ 22 < (2 ^ 23 :: int)"
    by simp_all
  have e: "(0::int) \<le> 255" "(255::int) < 256" by simp_all
  have "fexp (qnan p) = 255"
    unfolding qnan_def using e m by (rule fexp_mk_float)
  moreover have "fman (qnan p) = 2 ^ 22 + fman p mod 2 ^ 22"
    unfolding qnan_def using e m by (rule fman_mk_float)
  moreover have "(0::int) < 2 ^ 22 + fman p mod 2 ^ 22" by simp
  ultimately show ?thesis by (simp add: is_nan_def)
qed

text \<open>A sum that is not a NaN had no NaN operand, and does not depend on \<open>nan\<close>.\<close>

lemma fadd_not_nan:
  assumes "\<not> is_nan (fadd nan a b)"
  shows "\<not> is_nan a" and "fadd nan a b = fadd nan' a b"
proof -
  from assms show a: "\<not> is_nan a"
    by (auto simp: fadd_def is_nan_qnan)
  from assms have b: "\<not> is_nan b"
    by (auto simp: fadd_def is_nan_qnan)
  have c: "\<not> (is_inf a \<and> is_inf b \<and> fsign a \<noteq> fsign b)"
  proof
    assume "is_inf a \<and> is_inf b \<and> fsign a \<noteq> fsign b"
    with a b have "fadd nan a b = qnan (nan a b)"
      by (simp only: fadd_def simp_thms if_False if_True)
    with assms show False by (simp only: is_nan_qnan simp_thms)
  qed
  show "fadd nan a b = fadd nan' a b"
  proof (cases "is_inf a")
    case True
    with a b c show ?thesis by (simp only: fadd_def simp_thms if_False if_True)
  next
    case False
    with a b show ?thesis by (simp only: fadd_def simp_thms if_False if_True)
  qed
qed

lemma foldl_fadd_not_nan:
  "\<not> is_nan (foldl (fadd nan) z xs) \<Longrightarrow> foldl (fadd nan) z xs = foldl (fadd nan') z xs"
proof (induction xs rule: rev_induct)
  case Nil
  then show ?case by simp
next
  case (snoc x xs)
  from snoc.prems have n: "\<not> is_nan (fadd nan (foldl (fadd nan) z xs) x)" by simp
  then have "\<not> is_nan (foldl (fadd nan) z xs)" by (rule fadd_not_nan(1))
  then have "foldl (fadd nan) z xs = foldl (fadd nan') z xs" by (rule snoc.IH)
  moreover from n have "fadd nan (foldl (fadd nan) z xs) x = fadd nan' (foldl (fadd nan) z xs) x"
    by (rule fadd_not_nan(2))
  ultimately show ?case by simp
qed

text \<open>With a NaN among the floats, the sum is a NaN.\<close>

lemma foldl_fadd_nan:
  "is_nan z \<Longrightarrow> is_nan (foldl (fadd nan) z xs)"
  by (induction xs arbitrary: z) (simp_all add: fadd_def is_nan_qnan)

lemma foldl_fadd_nan_datum:
  "x \<in> set xs \<Longrightarrow> is_nan x \<Longrightarrow> is_nan (foldl (fadd nan) z xs)"
proof (induction xs arbitrary: z)
  case Nil
  then show ?case by simp
next
  case (Cons y ys)
  show ?case
  proof (cases "x = y")
    case True
    with Cons.prems have "is_nan (fadd nan z y)" by (simp add: fadd_def is_nan_qnan)
    then show ?thesis by (simp add: foldl_fadd_nan)
  next
    case False
    with Cons show ?thesis by simp
  qed
qed

text \<open>
  Claim C8. For \<open>N\<close> floats (as many as fit the 32-bit address space with their
  checksum, \<open>4 * (N + 1) < 2 ^ 32\<close>), the value that \<^verbatim>\<open>setFloatArrayValue\<close> sets is
  the four bytes of each float in order, followed by the four bytes of their sum, the
  floats being added in order starting from \<open>0.0\<close>; it has \<open>(N + 1) * 4\<close> bytes,
  whatever the new buffer held. A sum that is not a NaN is the same whatever NaNs the
  processor produces; otherwise the checksum is a NaN, with the sign and the payload
  the processor gives it.
\<close>

theorem setFloatArrayValue_layout:
  assumes "4 * (length data32 + 1) < 2 ^ 32"
  shows "setFloatArrayValue nan heap data32 =
           concat (map bytes_of data32) @ bytes_of (foldl (fadd nan) fzero data32)
         \<and> length (setFloatArrayValue nan heap data32) = (length data32 + 1) * 4
         \<and> (\<not> is_nan (foldl (fadd nan) fzero data32) \<longrightarrow>
              foldl (fadd nan) fzero data32 = foldl (fadd nan') fzero data32)"
proof -
  have r: "setFloatArrayValue nan heap data32 =
             concat (map bytes_of data32) @ bytes_of (foldl (fadd nan) fzero data32)"
    using assms by (rule setFloatArrayValue_bytes)
  have "length (setFloatArrayValue nan heap data32) = (length data32 + 1) * 4"
    unfolding r by (simp add: length_concat_bytes length_bytes_of)
  moreover have "foldl (fadd nan) fzero data32 = foldl (fadd nan') fzero data32"
    if "\<not> is_nan (foldl (fadd nan) fzero data32)"
    using that by (rule foldl_fadd_not_nan)
  ultimately show ?thesis using r by blast
qed

lemma one_plus_two: "fadd propagate_nan (fadd propagate_nan fzero 0x3F800000) 0x40000000 = 0x40400000"
  by code_simp

lemma three_not_nan: "\<not> is_nan 0x40400000"
  by (simp add: float_eval)

theorem setFloatArrayValue_layout_witness:
  "setFloatArrayValue propagate_nan erased [0x3F800000, 0x40000000] =
     [0x00, 0x00, 0x80, 0x3F, 0x00, 0x00, 0x00, 0x40, 0x00, 0x00, 0x40, 0x40]
   \<and> foldl (fadd (\<lambda>a b. fNaN)) fzero [0x3F800000, 0x40000000] = 0x40400000"
proof -
  have h: "4 * (length [0x3F800000, 0x40000000 :: float] + 1) < (2::nat) ^ 32" by simp
  have s: "foldl (fadd propagate_nan) fzero [0x3F800000, 0x40000000] = 0x40400000"
    by (simp add: one_plus_two)
  note t = setFloatArrayValue_layout [OF h, of propagate_nan erased "\<lambda>a b. fNaN"]
  from t have "setFloatArrayValue propagate_nan erased [0x3F800000, 0x40000000] =
          concat (map bytes_of [0x3F800000, 0x40000000])
            @ bytes_of (foldl (fadd propagate_nan) fzero [0x3F800000, 0x40000000])"
    by (rule conjunct1)
  also have "\<dots> = [0x00, 0x00, 0x80, 0x3F, 0x00, 0x00, 0x00, 0x40, 0x00, 0x00, 0x40, 0x40]"
    unfolding s by (simp add: bytes_of_def)
  finally have 1: "setFloatArrayValue propagate_nan erased [0x3F800000, 0x40000000] =
     [0x00, 0x00, 0x80, 0x3F, 0x00, 0x00, 0x00, 0x40, 0x00, 0x00, 0x40, 0x40]" .
  from t have "\<not> is_nan (foldl (fadd propagate_nan) fzero [0x3F800000, 0x40000000]) \<longrightarrow>
      foldl (fadd propagate_nan) fzero [0x3F800000, 0x40000000]
        = foldl (fadd (\<lambda>a b. fNaN)) fzero [0x3F800000, 0x40000000]"
    by blast
  then have 2: "foldl (fadd (\<lambda>a b. fNaN)) fzero [0x3F800000, 0x40000000] = 0x40400000"
    unfolding s using three_not_nan by simp
  from 1 2 show ?thesis by blast
qed

text \<open>
  For a processor that returns the NaN operand, the array \<open>{1.0, NaN 0xFFFFFFFF}\<close> is
  sent with the checksum bytes \<open>FF FF FF FF\<close>.
\<close>

lemma one_plus_nan: "fadd propagate_nan (fadd propagate_nan fzero 0x3F800000) 0xFFFFFFFF = 0xFFFFFFFF"
  by code_simp

lemma setFloatArrayValue_nan_datum:
  "setFloatArrayValue propagate_nan erased [0x3F800000, 0xFFFFFFFF] =
     [0x00, 0x00, 0x80, 0x3F, 0xFF, 0xFF, 0xFF, 0xFF, 0xFF, 0xFF, 0xFF, 0xFF]"
proof -
  have h: "4 * (length [0x3F800000, 0xFFFFFFFF :: float] + 1) < (2::nat) ^ 32" by simp
  have s: "foldl (fadd propagate_nan) fzero [0x3F800000, 0xFFFFFFFF] = 0xFFFFFFFF"
    by (simp add: one_plus_nan)
  show ?thesis
    unfolding setFloatArrayValue_bytes [OF h] s by (simp add: bytes_of_def)
qed

end
